theory Spec2Isabelle
  imports Complex_Main "HOL-Library.AList" "HOL-Library.Char_ord" "HOL-Library.List_Lexorder"
begin

section \<open>Python values\<close>

text \<open>
  The engine (\<^verbatim>\<open>support_app/expert_engine.py\<close>) and the rule importer
  (\<^verbatim>\<open>support_app/rule_import.py\<close>) work on dictionaries whose values are
  whatever JSON or YAML delivers. The scalars are modelled by \<open>atom\<close>; a Python
  \<^verbatim>\<open>float\<close> is a \<open>real\<close>, so arithmetic is exact and neither NaN nor the
  infinities are values. Strings are byte lists (a code point beyond ASCII is its UTF-8
  bytes). An exception is a value of \<open>py_error\<close>; a function that can raise returns
  \<open>py_error + 'a\<close>.
\<close>

datatype py_error = TypeError | ValueError | KeyError | AttributeError

datatype atom = ANone | ABool bool | AInt int | AFloat real | AStr string

text \<open>Values as the engine sees them: scalars and (nested) lists.\<close>

datatype pyval = Atom atom | PList "pyval list"

abbreviation PNone :: pyval where "PNone \<equiv> Atom ANone"
abbreviation PBool :: "bool \<Rightarrow> pyval" where "PBool b \<equiv> Atom (ABool b)"
abbreviation PInt :: "int \<Rightarrow> pyval" where "PInt i \<equiv> Atom (AInt i)"
abbreviation PFloat :: "real \<Rightarrow> pyval" where "PFloat x \<equiv> Atom (AFloat x)"
abbreviation PStr :: "string \<Rightarrow> pyval" where "PStr s \<equiv> Atom (AStr s)"

text \<open>
  The conversions \<^verbatim>\<open>int(s)\<close> and \<^verbatim>\<open>float(s)\<close> of a string are Python
  built-ins. The model takes them as parameters (\<open>None\<close> is the built-in's
  \<^verbatim>\<open>ValueError\<close>), so every result below holds for whatever they accept.
\<close>

record builtins =
  int_of_str :: "string \<Rightarrow> int option"
  float_of_str :: "string \<Rightarrow> real option"

text \<open>
  For the examples, a stand-in that reads plain decimal literals: an optional sign and
  digits for \<^verbatim>\<open>int\<close>, and an optional sign, digits and an optional dot with more
  digits (at least one digit in all) for \<^verbatim>\<open>float\<close>.
\<close>

definition digit_of :: "char \<Rightarrow> nat option" where
  "digit_of c =
     (let n = (of_char c :: nat) in if 48 \<le> n \<and> n \<le> 57 then Some (n - 48) else None)"

fun digits_val :: "string \<Rightarrow> nat \<Rightarrow> nat option" where
  "digits_val [] acc = Some acc"
| "digits_val (c # cs) acc =
     (case digit_of c of None \<Rightarrow> None | Some d \<Rightarrow> digits_val cs (10 * acc + d))"

definition unsigned_int :: "string \<Rightarrow> nat option" where
  "unsigned_int s = (if s = [] then None else digits_val s 0)"

definition unsigned_float :: "string \<Rightarrow> real option" where
  "unsigned_float s =
     (let ip = takeWhile (\<lambda>c. c \<noteq> CHR ''.'') s;
          fp = drop (Suc (length ip)) s
      in if ip = [] \<and> fp = [] then None
         else (case (digits_val ip 0, digits_val fp 0) of
                 (Some i, Some f) \<Rightarrow> Some (real i + real f / 10 ^ length fp)
               | _ \<Rightarrow> None))"

definition signed :: "(string \<Rightarrow> 'a option) \<Rightarrow> ('a \<Rightarrow> 'b) \<Rightarrow> ('b \<Rightarrow> 'b) \<Rightarrow> string \<Rightarrow> 'b option" where
  "signed parse_abs emb neg s =
     (case s of
        [] \<Rightarrow> None
      | c # cs \<Rightarrow>
          if c = CHR ''-'' then map_option (neg \<circ> emb) (parse_abs cs)
          else if c = CHR ''+'' then map_option emb (parse_abs cs)
          else map_option emb (parse_abs s))"

definition decimal_builtins :: builtins where
  "decimal_builtins =
     \<lparr>int_of_str = signed unsigned_int int uminus,
      float_of_str = signed unsigned_float id uminus\<rparr>"

text \<open>\<^verbatim>\<open>isinstance(v, (int, float))\<close>; \<^verbatim>\<open>bool\<close> is a subclass of \<^verbatim>\<open>int\<close>.\<close>

fun num_of :: "atom \<Rightarrow> real option" where
  "num_of (ABool b) = Some (if b then 1 else 0)"
| "num_of (AInt i) = Some (of_int i)"
| "num_of (AFloat x) = Some x"
| "num_of ANone = None"
| "num_of (AStr s) = None"

fun is_number :: "pyval \<Rightarrow> bool" where
  "is_number (Atom a) = (num_of a \<noteq> None)"
| "is_number (PList xs) = False"

text \<open>\<^verbatim>\<open>float(v)\<close>: a number converts, a string is parsed, anything else is a TypeError.\<close>

fun atom_float :: "builtins \<Rightarrow> atom \<Rightarrow> py_error + real" where
  "atom_float B (AStr s) = (case float_of_str B s of None \<Rightarrow> Inl ValueError | Some x \<Rightarrow> Inr x)"
| "atom_float B ANone = Inl TypeError"
| "atom_float B a = (case num_of a of None \<Rightarrow> Inl TypeError | Some x \<Rightarrow> Inr x)"

fun py_float :: "builtins \<Rightarrow> pyval \<Rightarrow> py_error + real" where
  "py_float B (Atom a) = atom_float B a"
| "py_float B (PList xs) = Inl TypeError"

text \<open>\<^verbatim>\<open>bool(v)\<close>.\<close>

fun atom_truthy :: "atom \<Rightarrow> bool" where
  "atom_truthy ANone = False"
| "atom_truthy (ABool b) = b"
| "atom_truthy (AInt i) = (i \<noteq> 0)"
| "atom_truthy (AFloat x) = (x \<noteq> 0)"
| "atom_truthy (AStr s) = (s \<noteq> [])"

fun truthy :: "pyval \<Rightarrow> bool" where
  "truthy (Atom a) = atom_truthy a"
| "truthy (PList xs) = (xs \<noteq> [])"

text \<open>Only lists are unhashable among these values.\<close>

fun hashable :: "pyval \<Rightarrow> bool" where
  "hashable (Atom a) = True"
| "hashable (PList xs) = False"

subsection \<open>Equality and order\<close>

text \<open>
  \<^verbatim>\<open>a == b\<close>: numbers (booleans included) compare by value, strings with strings,
  \<^verbatim>\<open>None\<close> with itself, lists element by element; values of different kinds are
  unequal. It never raises.
\<close>

definition atom_eq :: "atom \<Rightarrow> atom \<Rightarrow> bool" where
  "atom_eq a b =
     (case (num_of a, num_of b) of
        (Some x, Some y) \<Rightarrow> x = y
      | (None, None) \<Rightarrow> a = b
      | _ \<Rightarrow> False)"

fun py_eq :: "pyval \<Rightarrow> pyval \<Rightarrow> bool"
  and list_eq :: "pyval list \<Rightarrow> pyval list \<Rightarrow> bool" where
  "py_eq (Atom a) (Atom b) = atom_eq a b"
| "py_eq (PList xs) (PList ys) = list_eq xs ys"
| "py_eq (Atom a) (PList ys) = False"
| "py_eq (PList xs) (Atom b) = False"
| "list_eq [] [] = True"
| "list_eq (x # xs) (y # ys) = (py_eq x y \<and> list_eq xs ys)"
| "list_eq [] (y # ys) = False"
| "list_eq (x # xs) [] = False"

datatype cmp_op = CLt | CLe | CGt | CGe

fun real_cmp :: "cmp_op \<Rightarrow> real \<Rightarrow> real \<Rightarrow> bool" where
  "real_cmp CLt x y = (x < y)"
| "real_cmp CLe x y = (x \<le> y)"
| "real_cmp CGt x y = (x > y)"
| "real_cmp CGe x y = (x \<ge> y)"

text \<open>Strings are ordered lexicographically by code point.\<close>

fun str_lt :: "string \<Rightarrow> string \<Rightarrow> bool" where
  "str_lt [] [] = False"
| "str_lt [] (y # ys) = True"
| "str_lt (x # xs) [] = False"
| "str_lt (x # xs) (y # ys) =
     ((of_char x :: nat) < of_char y \<or> (x = y \<and> str_lt xs ys))"

fun str_cmp :: "cmp_op \<Rightarrow> string \<Rightarrow> string \<Rightarrow> bool" where
  "str_cmp CLt s t = str_lt s t"
| "str_cmp CLe s t = (\<not> str_lt t s)"
| "str_cmp CGt s t = str_lt t s"
| "str_cmp CGe s t = (\<not> str_lt s t)"

fun len_cmp :: "cmp_op \<Rightarrow> nat \<Rightarrow> nat \<Rightarrow> bool" where
  "len_cmp CLt m n = (m < n)"
| "len_cmp CLe m n = (m \<le> n)"
| "len_cmp CGt m n = (m > n)"
| "len_cmp CGe m n = (m \<ge> n)"

text \<open>
  \<^verbatim>\<open>a < b\<close>, \<^verbatim>\<open>a <= b\<close>, \<^verbatim>\<open>a > b\<close>, \<^verbatim>\<open>a >= b\<close>: numbers with numbers,
  strings with strings, lists with lists (the first pair of unequal elements decides,
  else the lengths); every other pairing raises TypeError.
\<close>

definition atom_cmp :: "cmp_op \<Rightarrow> atom \<Rightarrow> atom \<Rightarrow> py_error + bool" where
  "atom_cmp c a b =
     (case (num_of a, num_of b) of
        (Some x, Some y) \<Rightarrow> Inr (real_cmp c x y)
      | _ \<Rightarrow> (case (a, b) of
                (AStr s, AStr t) \<Rightarrow> Inr (str_cmp c s t)
              | _ \<Rightarrow> Inl TypeError))"

fun py_cmp :: "cmp_op \<Rightarrow> pyval \<Rightarrow> pyval \<Rightarrow> py_error + bool"
  and list_cmp :: "cmp_op \<Rightarrow> pyval list \<Rightarrow> pyval list \<Rightarrow> py_error + bool" where
  "py_cmp c (Atom a) (Atom b) = atom_cmp c a b"
| "py_cmp c (PList xs) (PList ys) = list_cmp c xs ys"
| "py_cmp c (Atom a) (PList ys) = Inl TypeError"
| "py_cmp c (PList xs) (Atom b) = Inl TypeError"
| "list_cmp c [] ys = Inr (len_cmp c 0 (length ys))"
| "list_cmp c (x # xs) [] = Inr (len_cmp c (Suc (length xs)) 0)"
| "list_cmp c (x # xs) (y # ys) = (if py_eq x y then list_cmp c xs ys else py_cmp c x y)"

subsection \<open>Membership\<close>

fun is_prefix :: "string \<Rightarrow> string \<Rightarrow> bool" where
  "is_prefix [] t = True"
| "is_prefix (x # xs) [] = False"
| "is_prefix (x # xs) (y # ys) = (x = y \<and> is_prefix xs ys)"

text \<open>\<^verbatim>\<open>s in t\<close> for two strings: \<open>s\<close> occurs in \<open>t\<close>.\<close>

fun substring :: "string \<Rightarrow> string \<Rightarrow> bool" where
  "substring s [] = (s = [])"
| "substring s (y # ys) = (is_prefix s (y # ys) \<or> substring s ys)"

text \<open>
  \<^verbatim>\<open>a in b\<close>: an element of a list, a substring of a string (a left operand that
  is not a string raises TypeError), and TypeError when \<open>b\<close> is no container.
\<close>

fun py_in :: "pyval \<Rightarrow> pyval \<Rightarrow> py_error + bool" where
  "py_in a (PList ys) = Inr (list_ex (\<lambda>y. py_eq y a) ys)"
| "py_in (Atom (AStr s)) (Atom (AStr t)) = Inr (substring s t)"
| "py_in a (Atom b) = Inl TypeError"


section \<open>The condition evaluator\<close>

text \<open>
  A condition is a dictionary read through the keys \<^verbatim>\<open>type\<close>, \<^verbatim>\<open>op\<close>,
  \<^verbatim>\<open>value\<close> and \<^verbatim>\<open>weight\<close>; a field is \<open>None\<close> when the key is absent.
  The facts are a dictionary with string keys.
\<close>

record cond =
  c_type :: "pyval option"
  c_op :: "pyval option"
  c_value :: "pyval option"
  c_weight :: "pyval option"

type_synonym facts = "string \<Rightarrow> pyval option"

text \<open>\<^verbatim>\<open>d.get(k, default)\<close> for a key that the record holds as an optional field.\<close>

definition get_or :: "'a option \<Rightarrow> 'a \<Rightarrow> 'a" where
  "get_or field dflt = (case field of None \<Rightarrow> dflt | Some v \<Rightarrow> v)"

text \<open>The operator table \<^verbatim>\<open>_OPS\<close> (lines 12 to 23).\<close>

definition OPS :: "string \<Rightarrow> (pyval \<Rightarrow> pyval \<Rightarrow> py_error + bool) option" where
  "OPS s =
     (if s = ''=='' then Some (\<lambda>a b. Inr (py_eq a b))
      else if s = ''!='' then Some (\<lambda>a b. Inr (\<not> py_eq a b))
      else if s = ''>='' then Some (py_cmp CGe)
      else if s = ''<='' then Some (py_cmp CLe)
      else if s = ''>'' then Some (py_cmp CGt)
      else if s = ''<'' then Some (py_cmp CLt)
      else if s = ''in'' then Some (\<lambda>a b. if a \<noteq> PNone then py_in a b else Inr False)
      else if s = ''contains'' then
        Some (\<lambda>a b. case (a, b) of
                       (Atom (AStr x), Atom (AStr y)) \<Rightarrow> Inr (substring y x)
                     | _ \<Rightarrow> Inr False)
      else if s = ''is_true'' then Some (\<lambda>a b. Inr (truthy a))
      else if s = ''is_false'' then Some (\<lambda>a b. Inr (\<not> truthy a))
      else None)"

text \<open>
  Looking a key up in a dictionary hashes it first: an unhashable key raises TypeError,
  a key that is not a string is in neither dictionary.
\<close>

definition dict_find :: "(string \<Rightarrow> 'a option) \<Rightarrow> pyval \<Rightarrow> py_error + 'a option" where
  "dict_find d k =
     (case k of
        PList xs \<Rightarrow> Inl TypeError
      | Atom (AStr s) \<Rightarrow> Inr (d s)
      | Atom a \<Rightarrow> Inr None)"

text \<open>
  The coercion of lines 40 to 47: a string fact compared with a number is parsed, as a
  float when it holds a dot and as an integer otherwise; when parsing fails the string
  stays.
\<close>

definition coerce :: "builtins \<Rightarrow> pyval \<Rightarrow> pyval \<Rightarrow> pyval" where
  "coerce B fact_val val =
     (case fact_val of
        Atom (AStr s) \<Rightarrow>
          (if is_number val then
             (if CHR ''.'' \<in> set s
              then (case float_of_str B s of None \<Rightarrow> fact_val | Some x \<Rightarrow> PFloat x)
              else (case int_of_str B s of None \<Rightarrow> fact_val | Some i \<Rightarrow> PInt i))
           else fact_val)
      | _ \<Rightarrow> fact_val)"

text \<open>\<^verbatim>\<open>_check_condition\<close> (lines 25 to 50).\<close>

definition check_condition :: "builtins \<Rightarrow> facts \<Rightarrow> cond \<Rightarrow> py_error + bool" where
  "check_condition B facts c =
     (let t = get_or (c_type c) PNone;
          opr = get_or (c_op c) (PStr ''=='');
          val = get_or (c_value c) PNone
      in case dict_find facts t of
           Inl e \<Rightarrow> Inl e
         | Inr None \<Rightarrow> Inr False
         | Inr (Some fact_val) \<Rightarrow>
             (case dict_find OPS opr of
                Inl e \<Rightarrow> Inl e
              | Inr None \<Rightarrow> Inr False
              | Inr (Some f) \<Rightarrow>
                  (case f (coerce B fact_val val) val of
                     Inl e \<Rightarrow> Inr False
                   | Inr b \<Rightarrow> Inr b)))"

section \<open>The rule scorer\<close>

record rule =
  r_id :: "pyval option"
  r_name :: "pyval option"
  r_confidence :: "pyval option"
  r_evidence :: "pyval option"
  r_remedy :: "pyval option"
  r_conditions :: "cond list option"
  r_not_conditions :: "cond list option"

text \<open>\<^verbatim>\<open>_normalize_confidence\<close> (lines 70 to 82).\<close>

definition normalize_confidence :: "builtins \<Rightarrow> pyval \<Rightarrow> real" where
  "normalize_confidence B c =
     (case py_float B c of
        Inl e \<Rightarrow> 0.5
      | Inr cf \<Rightarrow>
          if cf \<le> 0 then 0
          else if cf > 1 \<and> cf \<le> 100 then cf / 100
          else if cf > 100 then 1
          else cf)"

record eval_result =
  matched_conditions :: "cond list"
  unmatched_conditions :: "cond list"
  total_weight :: real
  matched_weight :: real
  match_ratio :: real
  confidence :: real
  score :: real
  negation_triggered :: bool

text \<open>
  The loop over the conditions (lines 97 to 105), with the four accumulators as its
  state. \<^verbatim>\<open>float\<close> of the weight can raise, and so can the condition evaluator.
\<close>

fun eval_conds ::
  "builtins \<Rightarrow> facts \<Rightarrow> cond list \<Rightarrow> real \<times> real \<times> cond list \<times> cond list \<Rightarrow>
   py_error + (real \<times> real \<times> cond list \<times> cond list)" where
  "eval_conds B facts [] acc = Inr acc"
| "eval_conds B facts (c # cs) (tw, mw, matched, unmatched) =
     (case py_float B (get_or (c_weight c) (PFloat 1)) of
        Inl e \<Rightarrow> Inl e
      | Inr w \<Rightarrow>
          (case check_condition B facts c of
             Inl e \<Rightarrow> Inl e
           | Inr ok \<Rightarrow>
               if ok then eval_conds B facts cs (tw + w, mw + w, matched @ [c], unmatched)
               else eval_conds B facts cs (tw + w, mw, matched, unmatched @ [c])))"

text \<open>The loop over the negations (lines 109 to 112): it stops at the first match.\<close>

fun eval_negs :: "builtins \<Rightarrow> facts \<Rightarrow> cond list \<Rightarrow> py_error + bool" where
  "eval_negs B facts [] = Inr False"
| "eval_negs B facts (c # cs) =
     (case check_condition B facts c of
        Inl e \<Rightarrow> Inl e
      | Inr ok \<Rightarrow> if ok then Inr True else eval_negs B facts cs)"

text \<open>\<^verbatim>\<open>evaluate_rule\<close> (lines 85 to 133).\<close>

definition evaluate_rule :: "builtins \<Rightarrow> rule \<Rightarrow> facts \<Rightarrow> py_error + eval_result" where
  "evaluate_rule B rule facts =
     (case eval_conds B facts (get_or (r_conditions rule) []) (0, 0, [], []) of
        Inl e \<Rightarrow> Inl e
      | Inr (tw, mw, matched, unmatched) \<Rightarrow>
          (case eval_negs B facts (get_or (r_not_conditions rule) []) of
             Inl e \<Rightarrow> Inl e
           | Inr neg_triggered \<Rightarrow>
               (let ratio0 = (if tw = 0 then 0 else mw / tw);
                    ratio = (if neg_triggered then 0 else ratio0);
                    conf = normalize_confidence B (get_or (r_confidence rule) (PFloat 0.5))
                in Inr \<lparr>matched_conditions = matched,
                        unmatched_conditions = unmatched,
                        total_weight = tw,
                        matched_weight = mw,
                        match_ratio = ratio,
                        confidence = conf,
                        score = conf * ratio,
                        negation_triggered = neg_triggered\<rparr>)))"

section \<open>The diagnosis ranker\<close>

record diagnosis =
  d_id :: pyval
  d_name :: pyval
  d_confidence :: real
  d_evidence :: pyval
  d_remedy :: pyval
  d_match_ratio :: real
  d_score :: real
  d_matched_conditions :: "cond list"
  d_unmatched_conditions :: "cond list"

definition SCORE_THRESHOLD :: real where
  "SCORE_THRESHOLD = 0.25"

text \<open>\<^verbatim>\<open>r.get('id') == 100\<close>, the test that skips the sentinel (line 784).\<close>

definition is_sentinel :: "rule \<Rightarrow> bool" where
  "is_sentinel r = py_eq (get_or (r_id r) PNone) (PInt 100)"

text \<open>
  The body of the \<^verbatim>\<open>try\<close> block (lines 787 to 800): the entries appended to
  \<^verbatim>\<open>matches\<close> for one rule, or the exception. \<^verbatim>\<open>r['id']\<close> and
  \<^verbatim>\<open>r['name']\<close> raise KeyError when the key is absent.
\<close>

definition try_rule :: "builtins \<Rightarrow> facts \<Rightarrow> rule \<Rightarrow> py_error + diagnosis list" where
  "try_rule B facts r =
     (case evaluate_rule B r facts of
        Inl e \<Rightarrow> Inl e
      | Inr res \<Rightarrow>
          if score res > 0 then
            (case r_id r of
               None \<Rightarrow> Inl KeyError
             | Some i \<Rightarrow>
                 (case r_name r of
                    None \<Rightarrow> Inl KeyError
                  | Some n \<Rightarrow>
                      Inr [\<lparr>d_id = i, d_name = n,
                            d_confidence = confidence res,
                            d_evidence = get_or (r_evidence r) (PStr []),
                            d_remedy = get_or (r_remedy r) (PStr []),
                            d_match_ratio = match_ratio res,
                            d_score = score res,
                            d_matched_conditions = matched_conditions res,
                            d_unmatched_conditions = unmatched_conditions res\<rparr>]))
          else Inr [])"

text \<open>
  The loop over the catalog (lines 783 to 802), with \<^verbatim>\<open>matches\<close> as its state: the
  sentinel is skipped, and a rule whose \<^verbatim>\<open>try\<close> block raises is skipped too.
\<close>

fun collect_matches :: "builtins \<Rightarrow> facts \<Rightarrow> rule list \<Rightarrow> diagnosis list \<Rightarrow> diagnosis list" where
  "collect_matches B facts [] matches = matches"
| "collect_matches B facts (r # rs) matches =
     (if is_sentinel r then collect_matches B facts rs matches
      else (case try_rule B facts r of
              Inl e \<Rightarrow> collect_matches B facts rs matches
            | Inr ds \<Rightarrow> collect_matches B facts rs (matches @ ds)))"

text \<open>
  \<^verbatim>\<open>sorted(ms, key=lambda x: x['score'], reverse=True)\<close>: Python's sort is stable,
  also when reversed. The built-in is modelled by the library's stable insertion sort
  on the negated key.
\<close>

definition sorted_by_score_desc :: "diagnosis list \<Rightarrow> diagnosis list" where
  "sorted_by_score_desc ms = sort_key (\<lambda>m. - d_score m) ms"

text \<open>
  \<^verbatim>\<open>next((x for x in RULES if x['id'] == 100), None)\<close> (line 816): \<^verbatim>\<open>x['id']\<close>
  raises KeyError at a rule without the key.
\<close>

fun find_fallback :: "rule list \<Rightarrow> py_error + rule option" where
  "find_fallback [] = Inr None"
| "find_fallback (x # xs) =
     (case r_id x of
        None \<Rightarrow> Inl KeyError
      | Some i \<Rightarrow> if py_eq i (PInt 100) then Inr (Some x) else find_fallback xs)"

text \<open>Lines 817 to 829: the diagnosis built from the fallback rule.\<close>

definition fallback_result :: "builtins \<Rightarrow> rule option \<Rightarrow> py_error + diagnosis list" where
  "fallback_result B fb =
     (case fb of
        None \<Rightarrow> Inr []
      | Some fallback \<Rightarrow>
          (case r_id fallback of
             None \<Rightarrow> Inl KeyError
           | Some i \<Rightarrow>
               (case r_name fallback of
                  None \<Rightarrow> Inl KeyError
                | Some n \<Rightarrow>
                    Inr [\<lparr>d_id = i, d_name = n,
                          d_confidence =
                            normalize_confidence B (get_or (r_confidence fallback) (PFloat 0.2)),
                          d_evidence = get_or (r_evidence fallback) (PStr []),
                          d_remedy = get_or (r_remedy fallback) (PStr []),
                          d_match_ratio = 0,
                          d_score = 0,
                          d_matched_conditions = [],
                          d_unmatched_conditions = []\<rparr>])))"

text \<open>
  \<^verbatim>\<open>run_diagnosis\<close> (lines 773 to 829) reads the module's list \<^verbatim>\<open>RULES\<close>;
  \<open>run_diagnosis_on\<close> is its body with that list as a parameter.
\<close>

definition run_diagnosis_on :: "builtins \<Rightarrow> rule list \<Rightarrow> facts \<Rightarrow> py_error + diagnosis list" where
  "run_diagnosis_on B rules facts =
     (let matches = collect_matches B facts rules [];
          matches_above = filter (\<lambda>m. d_score m \<ge> SCORE_THRESHOLD) matches
      in if matches_above \<noteq> [] then Inr (sorted_by_score_desc matches_above)
         else if matches \<noteq> [] then Inr (take 3 (sorted_by_score_desc matches))
         else (case find_fallback rules of
                 Inl e \<Rightarrow> Inl e
               | Inr fb \<Rightarrow> fallback_result B fb))"

section \<open>The rule catalog\<close>

text \<open>
  Every entry of \<^verbatim>\<open>RULES\<close> is a dictionary literal with the keys \<^verbatim>\<open>id\<close>,
  \<^verbatim>\<open>name\<close>, \<^verbatim>\<open>confidence\<close>, \<^verbatim>\<open>evidence\<close>, \<^verbatim>\<open>remedy\<close> and
  \<^verbatim>\<open>conditions\<close>, and every condition one with the keys \<^verbatim>\<open>type\<close>, \<^verbatim>\<open>op\<close>
  and \<^verbatim>\<open>value\<close>.
\<close>

definition mk_cond :: "string \<Rightarrow> string \<Rightarrow> pyval \<Rightarrow> cond" where
  "mk_cond t opr v =
     \<lparr>c_type = Some (PStr t), c_op = Some (PStr opr), c_value = Some v, c_weight = None\<rparr>"

definition mk_rule :: "int \<Rightarrow> string \<Rightarrow> real \<Rightarrow> string \<Rightarrow> string \<Rightarrow> cond list \<Rightarrow> rule" where
  "mk_rule i n c e r cs =
     \<lparr>r_id = Some (PInt i), r_name = Some (PStr n), r_confidence = Some (PFloat c),
      r_evidence = Some (PStr e), r_remedy = Some (PStr r), r_conditions = Some cs,
      r_not_conditions = None\<rparr>"

text \<open>Rules 1 to 55 (lines 144 to 481).\<close>

definition network_rules :: "rule list" where
  "network_rules =
    [mk_rule 1 (''Slow Network '' @ [CHR 0xE2, CHR 0x80, CHR 0x94] @ '' High Latency'')
       0.65
       ''High ping latency detected''
       ''Restart router, test wired connection, check ISP congestion.''
       [mk_cond ''ping_latency'' ''>='' (PInt 200)],
     mk_rule 2 (''Slow Network '' @ [CHR 0xE2, CHR 0x80, CHR 0x94] @ '' Low Throughput'')
       0.7
       ''Low measured throughput (Mbps)''
       ''Run speedtest, close background downloads, contact ISP if persist.''
       [mk_cond ''speed_mbps'' ''<'' (PFloat 1.0)],
     mk_rule 3 ''Router/Gateway Failure''
       0.95
       ''Cannot ping gateway while connected to network''
       ''Power-cycle router, check modem-to-router link and cables.''
       [mk_cond ''gateway_ping'' ''=='' (PStr ''fail''),
        mk_cond ''wifi_connected'' ''=='' (PBool True)],
     mk_rule 4 ''DNS Resolution Failure''
       0.95
       ''IP pings succeed but domain names fail''
       ''Change DNS to public DNS (8.8.8.8), flush DNS cache.''
       [mk_cond ''ping_ip'' ''=='' (PStr ''success''),
        mk_cond ''ping_domain'' ''=='' (PStr ''fail'')],
     mk_rule 5 ''IP Address Conflict''
       0.95
       ''OS reports IP conflict message''
       ''Enable DHCP or assign unique static IP addresses.''
       [mk_cond ''ip_conflict_msg'' ''=='' (PBool True)],
     mk_rule 6 ''Wi-Fi Authentication Failure''
       0.9
       (''User can'' @ [CHR 0x27] @ ''t authenticate to SSID'')
       ''Verify SSID/password, check RADIUS server if used.''
       [mk_cond ''wifi_auth_fail'' ''=='' (PBool True)],
     mk_rule 7 ''DHCP Server Issue''
       0.9
       ''Devices receive no IP or 169.254.x.x address''
       ''Restart DHCP server or router; check DHCP scope settings.''
       [mk_cond ''ip_address'' ''contains'' (PStr ''169.254'')],
     mk_rule 8 ''Cable/Link Fault''
       0.9
       ''Ethernet link down or flapping''
       ''Replace cable; test port; check switch port LED.''
       [mk_cond ''eth_link'' ''=='' (PStr ''down'')],
     mk_rule 9 ''High Packet Loss''
       0.85
       ''Packet loss above acceptable threshold''
       ''Check Wi-Fi interference, change channel, test wired path.''
       [mk_cond ''packet_loss'' ''>'' (PInt 5)],
     mk_rule 10 ''ISP Outage''
       0.9
       ''Multiple users report no internet; external checks fail''
       ''Contact ISP; check outage map/status.''
       [mk_cond ''multiple_users_down'' ''=='' (PBool True),
        mk_cond ''internet_status_external'' ''=='' (PStr ''down'')],
     mk_rule 11 ''Wi-Fi Interference (Low RSSI)''
       0.8
       ''Low RSSI/signal strength''
       ''Move closer to AP; reduce interference; change channel.''
       [mk_cond ''rssi'' ''<'' (PInt (-75))],
     mk_rule 12 ''Too Many Connected Clients''
       0.7
       ''AP reports high client count''
       ''Balance load; add another AP; use wired connections.''
       [mk_cond ''ap_client_count'' ''>'' (PInt 50)],
     mk_rule 13 ''NAT or Port Forwarding Problem''
       0.75
       ''Inbound services unreachable''
       ''Check NAT/port mappings and firewall rules.''
       [mk_cond ''inbound_unreachable'' ''=='' (PBool True)],
     mk_rule 14 ''Proxy Misconfiguration''
       0.7
       ''Browser cannot access web but ping works''
       ''Disable proxy or correct settings.''
       [mk_cond ''browser_err'' ''=='' (PStr ''proxy_required''),
        mk_cond ''ping_domain'' ''=='' (PStr ''success'')],
     mk_rule 15 ''Switch Port Disabled''
       0.9
       ''Device connected but no carrier; switch port shows disabled''
       ''Enable port; check VLAN membership.''
       [mk_cond ''switch_port_status'' ''=='' (PStr ''disabled'')],
     mk_rule 16 ''Misconfigured VLAN''
       0.85
       ''Device in wrong VLAN; cannot reach internal resources''
       ''Check VLAN tagging and switch config.''
       [mk_cond ''vlan_mismatch'' ''=='' (PBool True)],
     mk_rule 17 ''DNS Cache Poisoning Suspected''
       0.65
       ''Unexpected domain resolution to incorrect IP''
       ''Flush caches, check DNS servers, run diagnostics.''
       [mk_cond ''unexpected_dns_ip'' ''=='' (PBool True)],
     mk_rule 18 ''MTU Mismatch''
       0.6
       ''Large packets fail or fragment''
       ''Adjust MTU, test Path MTU discovery.''
       [mk_cond ''mtu_fail'' ''=='' (PBool True)],
     mk_rule 19 ''VPN Tunnel Down''
       0.9
       ''VPN client cannot establish tunnel''
       ''Check credentials, check VPN server and logs.''
       [mk_cond ''vpn_status'' ''=='' (PStr ''down'')],
     mk_rule 20 ''Slow DNS Response (High Latency)''
       0.7
       ''DNS queries take long to resolve''
       ''Use alternative DNS or check DNS server load.''
       [mk_cond ''dns_latency_ms'' ''>'' (PInt 200)],
     mk_rule 21 ''Router CPU High Load''
       0.7
       ''Router CPU near 100%''
       ''Reboot device; check for attack or misconfiguration.''
       [mk_cond ''router_cpu'' ''>'' (PInt 90)],
     mk_rule 22 ''ISP Throttling Detected''
       0.6
       ''Speed varies with service type/time''
       ''Contact ISP, test at different times/services.''
       [mk_cond ''speed_variance'' ''=='' (PBool True),
        mk_cond ''speed_mbps'' ''<'' (PInt 5)],
     mk_rule 23 ''IPv6 Misconfiguration''
       0.6
       ''IPv6 DNS or routing errors''
       ''Check IPv6 addressing and prefix settings.''
       [mk_cond ''ipv6_error'' ''=='' (PBool True)],
     mk_rule 24 ''Broken ARP Cache''
       0.6
       ''ARP entries wrong or stale''
       ''Clear ARP cache, check duplicates.''
       [mk_cond ''arp_conflict'' ''=='' (PBool True)],
     mk_rule 25 ''Captive Portal Blocking''
       0.85
       ''User must sign into captive portal''
       ''Open browser to sign in to captive portal.''
       [mk_cond ''captive_portal'' ''=='' (PBool True)],
     mk_rule 26 ''Misconfigured Firewall Blocking''
       0.9
       ''Firewall denies required traffic''
       ''Adjust rules to allow required ports/services.''
       [mk_cond ''firewall_block'' ''=='' (PBool True)],
     mk_rule 27 ''Proxy Authentication Required''
       0.8
       ''Browser error requiring proxy authentication''
       ''Provide credentials, configure browser or disable proxy.''
       [mk_cond ''browser_err'' ''=='' (PStr ''proxy_auth'')],
     mk_rule 28 ''Slow Wireless Roaming''
       0.6
       ''Clients roam between APs causing brief disconnects''
       ''Tune roaming aggressiveness or AP placement.''
       [mk_cond ''roam_count'' ''>'' (PInt 10)],
     mk_rule 29 ''Switch Overloaded (High Errors)''
       0.7
       ''High interface error counters''
       ''Check cabling, replace faulty NIC/switch module.''
       [mk_cond ''switch_errors'' ''>'' (PInt 1000)],
     mk_rule 30 ''Mis-set Default Gateway''
       0.8
       ''Default gateway incorrect''
       ''Set correct gateway in network config.''
       [mk_cond ''gateway_correct'' ''=='' (PBool False)],
     mk_rule 31 ''External Backhaul Congestion''
       0.6
       ''High latency to internet but low to intranet''
       ''Contact ISP; measure peering issues.''
       [mk_cond ''latency_internet'' ''>'' (PInt 200),
        mk_cond ''latency_intranet'' ''<'' (PInt 50)],
     mk_rule 32 ''DNS TTL Too Low/High''
       0.5
       ''Frequent DNS changes or stale results''
       ''Tune TTL values appropriately.''
       [mk_cond ''dns_ttl'' ''>'' (PInt 86400)],
     mk_rule 33 ''Routing Loop Detected''
       0.9
       ''Traceroute shows loop''
       ''Fix routing configuration to remove loop.''
       [mk_cond ''traceroute_loop'' ''=='' (PBool True)],
     mk_rule 34 ''ARP Flood / DDoS Suspected''
       0.8
       ''Excessive ARP traffic or broadcast storms''
       ''Isolate offending host; inspect traffic with switch mirroring.''
       [mk_cond ''arp_flood'' ''=='' (PBool True)],
     mk_rule 35 ''Poor Wi-Fi Security (Open SSID)''
       0.5
       ''Open Wi-Fi allowing unauthorized access''
       ''Enable WPA2/WPA3 security.''
       [mk_cond ''ssid_secure'' ''=='' (PBool False)],
     mk_rule 36 ''Corrupted Network Adapter Driver''
       0.8
       ''Driver errors in event logs''
       ''Reinstall/update NIC drivers.''
       [mk_cond ''driver_error_count'' ''>'' (PInt 3)],
     mk_rule 37 ''IPv4 Routing Missing''
       0.8
       ''Cannot reach networks beyond local segment''
       ''Add static routes or fix OSPF/BGP config.''
       [mk_cond ''route_missing'' ''=='' (PBool True)],
     mk_rule 38 ''AP Power Issue''
       0.85
       ''AP shows no power or frequent reboots''
       ''Check PoE injector/switch and power supply.''
       [mk_cond ''ap_reboot'' ''=='' (PBool True)],
     mk_rule 39 ''Misconfigured NAT Translation''
       0.7
       ''Internal host cannot reach external services''
       ''Review NAT rules and mappings.''
       [mk_cond ''nat_mismatch'' ''=='' (PBool True)],
     mk_rule 40 ''Windows Network Profile Blocked''
       0.6
       ''Windows network set to Public blocking sharing''
       ''Set to Private or adjust firewall rules.''
       [mk_cond ''windows_profile'' ''=='' (PStr ''Public'')],
     mk_rule 41 ''SSL Interception/Proxy Issue''
       0.7
       ''HTTPS pages show certificate errors''
       ''Install trusted CA or disable SSL interception for that site.''
       [mk_cond ''https_cert_err'' ''=='' (PBool True)],
     mk_rule 42 ''ISP DNS Hijack''
       0.6
       ''Known-good domain resolves to ISP ad server''
       ''Use trusted DNS or VPN.''
       [mk_cond ''dns_hijack'' ''=='' (PBool True)],
     mk_rule 43 ''QoS Misconfiguration''
       0.6
       ''Critical traffic deprioritized''
       ''Adjust QoS policies to prioritize important flows.''
       [mk_cond ''qos_issues'' ''=='' (PBool True)],
     mk_rule 44 ''Cable Duplex Mismatch''
       0.7
       ''Errors and collisions on interface''
       ''Set matching duplex settings or use auto-negotiation.''
       [mk_cond ''duplex_mismatch'' ''=='' (PBool True)],
     mk_rule 45 ''Network MTU Black Hole''
       0.7
       ''Certain protocols fail with large packets''
       ''Lower MTU or enable PMTUD.''
       [mk_cond ''mtu_blackhole'' ''=='' (PBool True)],
     mk_rule 46 ''ARP Spoofing Attempt''
       0.8
       ''Conflicting ARP entries''
       ''Isolate attacker, enable port security.''
       [mk_cond ''arp_spoof_detected'' ''=='' (PBool True)],
     mk_rule 47 ''Time Synchronization Error''
       0.5
       ''NTP out of sync causing auth issues''
       ''Sync time via NTP.''
       [mk_cond ''ntp_ok'' ''=='' (PBool False)],
     mk_rule 48 ''SSDP/UPnP Flood''
       0.55
       ''Excessive SSDP traffic''
       ''Disable UPnP where unnecessary.''
       [mk_cond ''ssdp_flood'' ''=='' (PBool True)],
     mk_rule 49 ''Port Scan Detected''
       0.85
       ''Multiple ports probed from same IP''
       ''Block scanner and investigate source.''
       [mk_cond ''port_scan'' ''=='' (PBool True)],
     mk_rule 50 ''Router Configuration Corruption''
       0.9
       ''Config fails to load correctly''
       ''Restore from backup; reconfigure router.''
       [mk_cond ''router_config_good'' ''=='' (PBool False)],
     mk_rule 51 ''Slow Wireless Encryption Overhead''
       0.5
       ''Weak hardware struggling with encryption''
       ''Upgrade AP hardware; use faster encryption modes.''
       [mk_cond ''old_ap_hw'' ''=='' (PBool True)],
     mk_rule 52 ''Mobile Carrier Data Fallback''
       0.6
       ''Client using mobile data instead of Wi-Fi''
       ''Disable mobile data or connect to Wi-Fi correctly.''
       [mk_cond ''client_online_via'' ''=='' (PStr ''mobile'')],
     mk_rule 53 ''Blocked by Content Filter''
       0.7
       ''Access blocked by content filter or web filter''
       ''Request unblock or adjust filter policy.''
       [mk_cond ''content_filter_block'' ''=='' (PBool True)],
     mk_rule 54 ''ISP Peering Problem''
       0.6
       ''High latency to specific AS paths''
       ''Contact ISP to report peering issues.''
       [mk_cond ''as_path_latency'' ''>'' (PInt 200)],
     mk_rule 55 ''Low Wi-Fi Channel Width / Legacy Rates''
       0.6
       ''AP using legacy rates reducing throughput''
       ''Change channel width and disable legacy rates.''
       [mk_cond ''legacy_rate_enabled'' ''=='' (PBool True)]]"

text \<open>Rules 56 to 100 (lines 484 to 767); rule 100 is the sentinel.\<close>

definition computer_rules :: "rule list" where
  "computer_rules =
    [mk_rule 56 (''No Power '' @ [CHR 0xE2, CHR 0x80, CHR 0x94] @ '' PSU Fault'')
       0.98
       ''PC shows no signs of power''
       ''Check mains, PSU connectors, test/replace PSU.''
       [mk_cond ''pc_power'' ''=='' (PBool False)],
     mk_rule 57 (''No Display '' @ [CHR 0xE2, CHR 0x80, CHR 0x94] @ '' GPU/Monitor Issue'')
       0.9
       ''Power on but no display, external monitor fails''
       ''Check monitor, cables, reseat GPU.''
       [mk_cond ''pc_power'' ''=='' (PBool True),
        mk_cond ''display'' ''=='' (PStr ''no'')],
     mk_rule 58 ''BIOS Beep Memory Error''
       0.95
       ''Beep codes consistent with RAM error''
       ''Reseat RAM, run memtest, replace defective stick.''
       [mk_cond ''beep_codes'' ''contains'' (PStr ''mem'')],
     mk_rule 59 ''BIOS Beep GPU Error''
       0.95
       ''Beep codes indicate GPU/graphics failure''
       ''Reseat GPU, test with known-good card.''
       [mk_cond ''beep_codes'' ''contains'' (PStr ''gpu'')],
     mk_rule 60 (''Overheating '' @ [CHR 0xE2, CHR 0x80, CHR 0x94] @ '' Fan/Heatsink Fault'')
       0.92
       ''CPU temp dangerously high''
       ''Clean dust, reapply thermal paste, replace fan.''
       [mk_cond ''cpu_temp'' ''>'' (PInt 80)],
     mk_rule 61 ''Thermal Throttling''
       0.85
       ''High temps causing low performance''
       ''Improve cooling, check background processes.''
       [mk_cond ''cpu_temp'' ''>'' (PInt 70),
        mk_cond ''slow_performance'' ''=='' (PBool True)],
     mk_rule 62 ''Failing HDD/SSD''
       0.95
       ''SMART disk health low or many bad sectors''
       ''Backup immediately and replace drive.''
       [mk_cond ''disk_health'' ''<'' (PInt 50)],
     mk_rule 63 ''Corrupted OS Bootloader''
       0.9
       ''No OS boot, bootloader errors''
       ''Repair bootloader or restore OS from backup.''
       [mk_cond ''boot_error'' ''contains'' (PStr ''NTLDR''),
        mk_cond ''os_present'' ''=='' (PBool True)],
     mk_rule 64 (''Slow Boot '' @ [CHR 0xE2, CHR 0x80, CHR 0x94] @ '' Disk or Startup Bloat'')
       0.8
       ''Slow boot with high disk usage''
       ''Disable startup apps, check disk health.''
       [mk_cond ''slow_boot'' ''=='' (PBool True),
        mk_cond ''disk_usage_startup'' ''>'' (PInt 90)],
     mk_rule 65 (''Application Crash '' @ [CHR 0xE2, CHR 0x80, CHR 0x94] @ '' Memory Leak'')
       0.85
       ''App crashes with RAM near 100%''
       ''Restart app, update/reinstall, increase RAM.''
       [mk_cond ''app_crash'' ''=='' (PBool True),
        mk_cond ''ram_usage'' ''>'' (PInt 90)],
     mk_rule 66 (''Application Crash '' @ [CHR 0xE2, CHR 0x80, CHR 0x94] @ '' Corrupted Install'')
       0.8
       ''Crash across runs with different inputs''
       ''Reinstall application or check logs.''
       [mk_cond ''app_crash'' ''=='' (PBool True),
        mk_cond ''app_reinstall_attempted'' ''=='' (PBool False)],
     mk_rule 67 (''Possible Malware '' @ [CHR 0xE2, CHR 0x80, CHR 0x94] @ '' Suspicious Popups & Idle CPU'')
       0.9
       ''Frequent popups with high idle CPU''
       ''Disconnect network, run offline antivirus, restore from known good backup.''
       [mk_cond ''popups'' ''=='' (PBool True),
        mk_cond ''idle_cpu'' ''>'' (PInt 80)],
     mk_rule 68 ''Ransomware Suspected''
       0.95
       ''Files encrypted or ransom note detected''
       ''Isolate host, preserve logs, restore from backups; do not pay ransom.''
       [mk_cond ''files_encrypted'' ''=='' (PBool True)],
     mk_rule 69 ''Driver Conflict''
       0.85
       ''Driver crashes or mismatched driver versions''
       ''Roll back or update driver; use vendor driver.''
       [mk_cond ''driver_conflict'' ''=='' (PBool True)],
     mk_rule 70 ''GPU Driver Crash/Black Screen''
       0.9
       ''Display resets when launching GPU-heavy apps''
       ''Update GPU drivers, check power connectors.''
       [mk_cond ''gpu_reset'' ''=='' (PBool True)],
     mk_rule 71 ''Battery Failure (Laptop)''
       0.9
       ''Battery not charging or holds no charge''
       ''Replace battery or AC adapter.''
       [mk_cond ''battery_health'' ''<'' (PInt 20)],
     mk_rule 72 ''Thermal Paste Degraded''
       0.6
       ''High temps despite fan functioning''
       ''Reapply thermal paste and reseat cooler.''
       [mk_cond ''fan_speed_ok'' ''=='' (PBool True),
        mk_cond ''cpu_temp'' ''>'' (PInt 85)],
     mk_rule 73 ''Loose Power Connector''
       0.85
       ''Intermittent power or sudden shutdowns''
       ''Check cables and connectors.''
       [mk_cond ''sudden_shutdown'' ''=='' (PBool True),
        mk_cond ''power_bad_report'' ''=='' (PBool True)],
     mk_rule 74 ''Corrupted System Files''
       0.8
       ''SFC or system repair detects corruption''
       ''Run system file checker and repair tools.''
       [mk_cond ''sfc_errors'' ''>'' (PInt 0)],
     mk_rule 75 ''Windows Update Caused Regression''
       0.6
       ''Issue started after recent Windows update''
       ''Uninstall problematic update or use restore point.''
       [mk_cond ''recent_update'' ''=='' (PBool True),
        mk_cond ''issue_started_after_update'' ''=='' (PBool True)],
     mk_rule 76 ''File System Corruption''
       0.9
       ''CHKDSK finds errors''
       ''Repair filesystem and restore backups.''
       [mk_cond ''chkdsk_errors'' ''>'' (PInt 0)],
     mk_rule 77 ''Malfunctioning Peripheral (USB)''
       0.8
       ''USB device disconnects or errors''
       ''Try different port, check power, update drivers.''
       [mk_cond ''usb_error'' ''=='' (PBool True)],
     mk_rule 78 ''BIOS Settings Corrupt''
       0.85
       ''Wrong boot order or system settings reset''
       ''Reset BIOS/UEFI to defaults and reconfigure.''
       [mk_cond ''bios_reset_detected'' ''=='' (PBool True)],
     mk_rule 79 ''Windows Activation/License Problem''
       0.6
       ''Activation errors''
       ''Reactivate Windows or check license keys.''
       [mk_cond ''win_activate_err'' ''=='' (PBool True)],
     mk_rule 80 ''Insufficient RAM for Workload''
       0.85
       ''High memory usage under expected workload''
       ''Add RAM or optimize apps.''
       [mk_cond ''ram_usage'' ''>'' (PInt 85),
        mk_cond ''expected_workload'' ''=='' (PStr ''normal'')],
     mk_rule 81 ''Corrupted Browser Profile''
       0.7
       ''Browser crashes or misbehaves across sites''
       ''Reset profile or reinstall browser.''
       [mk_cond ''browser_crash'' ''=='' (PBool True),
        mk_cond ''browser_profile_old'' ''=='' (PBool True)],
     mk_rule 82 ''System Overloaded by Background Tasks''
       0.75
       ''High CPU/disk caused by background process''
       ''Identify and stop background tasks; schedule jobs off-hours.''
       [mk_cond ''background_cpu'' ''>'' (PInt 60)],
     mk_rule 83 ''Heat Sink Not Properly Mounted''
       0.9
       ''High temps + uneven core temps''
       ''Reseat heatsink and reapply thermal paste.''
       [mk_cond ''core_temp_delta'' ''>'' (PInt 20)],
     mk_rule 84 ''SSD TRIM Disabled''
       0.6
       ''SSD performance degradation''
       ''Enable TRIM and optimize filesystem.''
       [mk_cond ''ssd_trim_enabled'' ''=='' (PBool False)],
     mk_rule 85 ''Corrupted User Profile''
       0.7
       ''User-specific settings missing or corrupted''
       ''Create new profile and migrate data.''
       [mk_cond ''profile_corrupt'' ''=='' (PBool True)],
     mk_rule 86 ''Power Management Bug''
       0.6
       ''Sleep/wake issues''
       ''Update power drivers and BIOS.''
       [mk_cond ''sleep_wake_fail'' ''=='' (PBool True)],
     mk_rule 87 ''Thermal Sensor Fault''
       0.5
       ''Temperature readings inconsistent''
       ''Validate with external sensor or BIOS reading.''
       [mk_cond ''temp_sensor_err'' ''=='' (PBool True)],
     mk_rule 88 ''Firmware Bug (Device)''
       0.7
       ''Device malfunction solved by firmware update''
       ''Update firmware to latest stable release.''
       [mk_cond ''firmware_old'' ''=='' (PBool True)],
     mk_rule 89 ''Corrupted Application Cache''
       0.6
       ''App misbehavior resolved by clearing cache''
       ''Clear application cache and restart.''
       [mk_cond ''app_cache_corrupt'' ''=='' (PBool True)],
     mk_rule 90 ''Incompatible Peripheral Driver''
       0.85
       ''Peripheral causes kernel errors''
       ''Install vendor-supplied driver or remove device.''
       [mk_cond ''kernel_panic_device'' ''=='' (PBool True)],
     mk_rule 91 ''Slow System Due to Fragmented Disk''
       0.55
       ''HDD fragmented and slow I/O''
       ''Defragment HDD (not SSD).''
       [mk_cond ''hdd_fragmentation'' ''>'' (PInt 30)],
     mk_rule 92 ''Corrupted Boot Sector''
       0.9
       ''Bootloader missing or sector corrupted''
       ''Repair boot sector using recovery tools.''
       [mk_cond ''boot_sector_ok'' ''=='' (PBool False)],
     mk_rule 93 ''Security Policy Blocking Action''
       0.7
       ''Group policy prevents action''
       ''Adjust group policy or use admin override.''
       [mk_cond ''gpo_block'' ''=='' (PBool True)],
     mk_rule 94 ''Unpatched Vulnerability Detected''
       0.8
       ''Known vulnerable version detected''
       ''Patch OS/software and mitigate exposure.''
       [mk_cond ''vuln_found'' ''=='' (PBool True)],
     mk_rule 95 ''Corrupted Network Stack (OS)''
       0.8
       ''Winsock or equivalent corruption symptoms''
       ''Reset network stack (e.g., netsh winsock reset).''
       [mk_cond ''network_stack_corrupt'' ''=='' (PBool True)],
     mk_rule 96 ''Background Update Causing Slowdown''
       0.6
       ''Auto-updates consuming CPU/disk''
       ''Schedule updates at off-hours or pause updates.''
       [mk_cond ''auto_update_running'' ''=='' (PBool True)],
     mk_rule 97 ''Insufficient Disk Space''
       0.9
       ''Very low free disk space''
       ''Clean up disk, remove temp files, extend partition.''
       [mk_cond ''disk_free_percent'' ''<'' (PInt 5)],
     mk_rule 98 ''Corrupted Registry (Windows)''
       0.75
       ''Registry errors reported in logs''
       ''Repair registry from backup or reinstall OS.''
       [mk_cond ''registry_errors'' ''>'' (PInt 0)],
     mk_rule 99 (''Unresponsive System '' @ [CHR 0xE2, CHR 0x80, CHR 0x94] @ '' Kernel Hang'')
       0.9
       ''System becomes unresponsive and requires hard reset''
       ''Collect memory dump and analyze; update kernel/drivers.''
       [mk_cond ''kernel_hang'' ''=='' (PBool True)],
     mk_rule 100 ''Insufficient Data to Diagnose''
       0.2
       ''Not enough facts supplied to identify root cause''
       ''Collect more diagnostics (ping, speedtest, temps, logs).''
       []]"

definition RULES :: "rule list" where
  "RULES = network_rules @ computer_rules"

definition run_diagnosis :: "builtins \<Rightarrow> facts \<Rightarrow> py_error + diagnosis list" where
  "run_diagnosis B facts = run_diagnosis_on B RULES facts"

section \<open>Notions used in the statements\<close>

text \<open>A condition holds when the evaluator returns \<^verbatim>\<open>True\<close> for it.\<close>

definition holds :: "builtins \<Rightarrow> facts \<Rightarrow> cond \<Rightarrow> bool" where
  "holds B facts c = (check_condition B facts c = Inr True)"

definition weight_of :: "builtins \<Rightarrow> cond \<Rightarrow> real" where
  "weight_of B c = (case py_float B (get_or (c_weight c) (PFloat 1)) of Inl e \<Rightarrow> 0 | Inr w \<Rightarrow> w)"

definition keys_hashable :: "cond \<Rightarrow> bool" where
  "keys_hashable c = (hashable (get_or (c_type c) PNone) \<and> hashable (get_or (c_op c) (PStr ''=='')))"

definition weight_coercible :: "builtins \<Rightarrow> cond \<Rightarrow> bool" where
  "weight_coercible B c = (case py_float B (get_or (c_weight c) (PFloat 1)) of Inl e \<Rightarrow> False | Inr w \<Rightarrow> True)"

definition rule_well_formed :: "builtins \<Rightarrow> rule \<Rightarrow> bool" where
  "rule_well_formed B r =
     (list_all (\<lambda>c. keys_hashable c \<and> weight_coercible B c) (get_or (r_conditions r) []) \<and>
      list_all keys_hashable (get_or (r_not_conditions r) []))"


text \<open>
  Examples: the DNS rule of the catalog (rule 4) with a negation added, as the spec's
  design note suggests ("do not diagnose DNS failure if DNS was never tested"), and a
  rule with weighted conditions.
\<close>

definition dns_rule_with_veto :: rule where
  "dns_rule_with_veto =
     \<lparr>r_id = Some (PInt 4), r_name = Some (PStr ''DNS Resolution Failure''),
      r_confidence = Some (PFloat 0.95),
      r_evidence = Some (PStr ''IP pings succeed but domain names fail''),
      r_remedy = Some (PStr ''Change DNS to public DNS (8.8.8.8), flush DNS cache.''),
      r_conditions = Some [mk_cond ''ping_ip'' ''=='' (PStr ''success''),
                           mk_cond ''ping_domain'' ''=='' (PStr ''fail'')],
      r_not_conditions = Some [mk_cond ''dns_tested'' ''=='' (PBool False)]\<rparr>"

definition dns_facts_untested :: facts where
  "dns_facts_untested =
     [''ping_ip'' \<mapsto> PStr ''success'', ''ping_domain'' \<mapsto> PStr ''fail'',
      ''dns_tested'' \<mapsto> PBool False]"



text \<open>
  The candidate set in the words of the spec: every rule of the catalog but the
  sentinel is evaluated, and those with a score above zero are kept, in catalog order,
  each as its diagnosis. A rule whose evaluation raises has no score; a diagnosis needs
  the rule's \<^verbatim>\<open>id\<close> and \<^verbatim>\<open>name\<close>.
\<close>

definition diagnosis_of :: "rule \<Rightarrow> eval_result \<Rightarrow> diagnosis option" where
  "diagnosis_of r res =
     (case (r_id r, r_name r) of
        (Some i, Some n) \<Rightarrow>
          Some \<lparr>d_id = i, d_name = n, d_confidence = confidence res,
                d_evidence = get_or (r_evidence r) (PStr []),
                d_remedy = get_or (r_remedy r) (PStr []),
                d_match_ratio = match_ratio res, d_score = score res,
                d_matched_conditions = matched_conditions res,
                d_unmatched_conditions = unmatched_conditions res\<rparr>
      | _ \<Rightarrow> None)"

definition candidate :: "builtins \<Rightarrow> facts \<Rightarrow> rule \<Rightarrow> diagnosis option" where
  "candidate B facts r =
     (if is_sentinel r then None
      else (case evaluate_rule B r facts of
              Inl e \<Rightarrow> None
            | Inr res \<Rightarrow> if score res > 0 then diagnosis_of r res else None))"

definition candidates :: "builtins \<Rightarrow> facts \<Rightarrow> rule list \<Rightarrow> diagnosis list" where
  "candidates B facts rules = List.map_filter (candidate B facts) rules"

text \<open>
  \<open>ds\<close> is \<open>ms\<close> sorted by score, highest first, and stable: diagnoses of equal score
  keep the order they have in \<open>ms\<close>.
\<close>

definition ranked :: "diagnosis list \<Rightarrow> diagnosis list \<Rightarrow> bool" where
  "ranked ds ms =
     (sorted_wrt (\<lambda>a b. d_score a \<ge> d_score b) ds \<and>
      (\<forall>s. filter (\<lambda>m. d_score m = s) ds = filter (\<lambda>m. d_score m = s) ms))"

text \<open>The diagnosis of the sentinel, rule 100 of the catalog.\<close>

definition insufficient_data :: diagnosis where
  "insufficient_data =
     \<lparr>d_id = PInt 100, d_name = PStr ''Insufficient Data to Diagnose'',
      d_confidence = 0.2,
      d_evidence = PStr ''Not enough facts supplied to identify root cause'',
      d_remedy = PStr ''Collect more diagnostics (ping, speedtest, temps, logs).'',
      d_match_ratio = 0, d_score = 0,
      d_matched_conditions = [], d_unmatched_conditions = []\<rparr>"

text \<open>
  Example catalogs: rules 1, 3, 4, 5 and 100 of \<^verbatim>\<open>RULES\<close>; a catalog of
  low-confidence rules; and a catalog whose first rule has a weight that is no number.
\<close>

definition sample_catalog :: "rule list" where
  "sample_catalog =
     [mk_rule 1 (''Slow Network '' @ [CHR 0xE2, CHR 0x80, CHR 0x94] @ '' High Latency'')
        0.65
        ''High ping latency detected''
        ''Restart router, test wired connection, check ISP congestion.''
        [mk_cond ''ping_latency'' ''>='' (PInt 200)],
      mk_rule 3 ''Router/Gateway Failure''
        0.95
        ''Cannot ping gateway while connected to network''
        ''Power-cycle router, check modem-to-router link and cables.''
        [mk_cond ''gateway_ping'' ''=='' (PStr ''fail''),
         mk_cond ''wifi_connected'' ''=='' (PBool True)],
      mk_rule 4 ''DNS Resolution Failure''
        0.95
        ''IP pings succeed but domain names fail''
        ''Change DNS to public DNS (8.8.8.8), flush DNS cache.''
        [mk_cond ''ping_ip'' ''=='' (PStr ''success''),
         mk_cond ''ping_domain'' ''=='' (PStr ''fail'')],
      mk_rule 5 ''IP Address Conflict''
        0.95
        ''OS reports IP conflict message''
        ''Enable DHCP or assign unique static IP addresses.''
        [mk_cond ''ip_conflict_msg'' ''=='' (PBool True)],
      mk_rule 100 ''Insufficient Data to Diagnose''
        0.2
        ''Not enough facts supplied to identify root cause''
        ''Collect more diagnostics (ping, speedtest, temps, logs).''
        []]"

definition sample_facts :: facts where
  "sample_facts =
     [''ping_latency'' \<mapsto> PInt 250, ''gateway_ping'' \<mapsto> PStr ''fail'',
      ''ping_ip'' \<mapsto> PStr ''success'', ''ping_domain'' \<mapsto> PStr ''fail'',
      ''ip_conflict_msg'' \<mapsto> PBool True]"

definition weak_catalog :: "rule list" where
  "weak_catalog =
     [mk_rule 201 ''Weak A'' 0.2 ''a'' ''ra'' [mk_cond ''a'' ''=='' (PBool True)],
      mk_rule 202 ''Weak B'' 0.2 ''b'' ''rb''
        [mk_cond ''a'' ''=='' (PBool True), mk_cond ''b'' ''=='' (PBool True)],
      mk_rule 203 ''Weak C'' 0.2 ''c'' ''rc'' [mk_cond ''a'' ''=='' (PBool True)],
      mk_rule 204 ''Weak D'' 0.1 ''d'' ''rd'' [mk_cond ''a'' ''=='' (PBool True)],
      mk_rule 100 ''Insufficient Data to Diagnose''
        0.2
        ''Not enough facts supplied to identify root cause''
        ''Collect more diagnostics (ping, speedtest, temps, logs).''
        []]"

definition weak_facts :: facts where
  "weak_facts = [''a'' \<mapsto> PBool True]"


section \<open>The rule importer\<close>

text \<open>
  \<^verbatim>\<open>validate_rules\<close> changes dictionaries that its argument shares with its result,
  so the importer is modelled over a store. A value is a scalar or a reference; a
  reference is the address of a dictionary (its entries with string keys, in insertion
  order) or of a list. The store is the list of the objects allocated so far, an
  address is an index into it, and a new object gets the next address.
\<close>

type_synonym addr = nat

datatype sval = Imm atom | Ref addr

datatype obj = ODict "(string \<times> sval) list" | OList "sval list"

type_synonym heap = "obj list"

definition heap_get :: "heap \<Rightarrow> addr \<Rightarrow> obj option" where
  "heap_get h a = (if a < length h then Some (h ! a) else None)"

definition alloc :: "heap \<Rightarrow> obj \<Rightarrow> addr \<times> heap" where
  "alloc h ob = (length h, h @ [ob])"

text \<open>\<^verbatim>\<open>isinstance(v, dict)\<close> and \<^verbatim>\<open>isinstance(v, list)\<close>, with the object found.\<close>

definition dict_at :: "heap \<Rightarrow> sval \<Rightarrow> (addr \<times> (string \<times> sval) list) option" where
  "dict_at h v =
     (case v of
        Imm a \<Rightarrow> None
      | Ref a \<Rightarrow> (case heap_get h a of Some (ODict d) \<Rightarrow> Some (a, d) | _ \<Rightarrow> None))"

definition list_at :: "heap \<Rightarrow> sval \<Rightarrow> (addr \<times> sval list) option" where
  "list_at h v =
     (case v of
        Imm a \<Rightarrow> None
      | Ref a \<Rightarrow> (case heap_get h a of Some (OList xs) \<Rightarrow> Some (a, xs) | _ \<Rightarrow> None))"

text \<open>\<^verbatim>\<open>float(v)\<close> and \<^verbatim>\<open>bool(v)\<close> of a stored value; a list or dictionary does not
  convert to \<^verbatim>\<open>float\<close> and is true when it is not empty.\<close>

fun sval_float :: "builtins \<Rightarrow> sval \<Rightarrow> py_error + real" where
  "sval_float B (Imm a) = atom_float B a"
| "sval_float B (Ref a) = Inl TypeError"

definition sval_truthy :: "heap \<Rightarrow> sval \<Rightarrow> bool" where
  "sval_truthy h v =
     (case v of
        Imm a \<Rightarrow> atom_truthy a
      | Ref a \<Rightarrow> (case heap_get h a of
                    Some (ODict d) \<Rightarrow> d \<noteq> []
                  | Some (OList xs) \<Rightarrow> xs \<noteq> []
                  | None \<Rightarrow> True))"

text \<open>\<^verbatim>\<open>_normalize_confidence_raw\<close> (lines 47 to 61).\<close>

definition normalize_confidence_raw :: "builtins \<Rightarrow> sval \<Rightarrow> real option" where
  "normalize_confidence_raw B c =
     (case sval_float B c of
        Inl e \<Rightarrow> None
      | Inr cf \<Rightarrow>
          if 0 \<le> cf \<and> cf \<le> 1 then Some cf
          else if 1 < cf \<and> cf \<le> 100 then Some (cf / 100)
          else if cf > 100 then Some 1
          else None)"

text \<open>
  The issues are strings in the source; the model keeps what each message is about:
  the index or the \<^verbatim>\<open>id\<close> of the rule, the index of the condition, and the value
  complained about.
\<close>

datatype issue =
    RuleNotADict nat
  | RuleMissingId nat
  | DuplicateId sval
  | RuleMissingName sval
  | InvalidConfidence sval sval
  | ConditionsNone sval
  | ConditionsNotAList sval
  | ConditionNotADict sval nat
  | ConditionMissingType sval nat
  | ConditionMissingOp sval nat
  | ConditionInvalidWeight sval nat sval

text \<open>
  Lines 103 to 114: what the loop does to one condition dictionary, and the issues it
  appends.
\<close>

definition validate_cond ::
  "builtins \<Rightarrow> sval \<Rightarrow> nat \<Rightarrow> (string \<times> sval) list \<Rightarrow> (string \<times> sval) list \<times> issue list" where
  "validate_cond B rid j c =
     (let iss1 = (if map_of c ''type'' = None then [ConditionMissingType rid j] else []);
          c1 = (if map_of c ''op'' = None then AList.update ''op'' (Imm (AStr ''=='')) c else c);
          iss2 = (if map_of c ''op'' = None then iss1 @ [ConditionMissingOp rid j] else iss1);
          w = (case map_of c1 ''weight'' of None \<Rightarrow> Imm (AFloat 1) | Some v \<Rightarrow> v)
      in case sval_float B w of
           Inr x \<Rightarrow> (AList.update ''weight'' (Imm (AFloat x)) c1, iss2)
         | Inl e \<Rightarrow> (AList.update ''weight'' (Imm (AFloat 1)) c1,
                     iss2 @ [ConditionInvalidWeight rid j w]))"

text \<open>
  The loop over the conditions (lines 99 to 114), with the store and the issues as its
  state. The dictionary is written back to its own address: the mutation is in place.
\<close>

fun validate_conds ::
  "builtins \<Rightarrow> sval \<Rightarrow> nat \<Rightarrow> sval list \<Rightarrow> heap \<times> issue list \<Rightarrow> heap \<times> issue list" where
  "validate_conds B rid j [] st = st"
| "validate_conds B rid j (c # cs) (h, iss) =
     (case dict_at h c of
        None \<Rightarrow> validate_conds B rid (Suc j) cs (h, iss @ [ConditionNotADict rid j])
      | Some (a, d) \<Rightarrow>
          validate_conds B rid (Suc j) cs
            (h[a := ODict (fst (validate_cond B rid j d))], iss @ snd (validate_cond B rid j d)))"

text \<open>
  The state of the loop over the rules: the store, \<^verbatim>\<open>seen_ids\<close>, \<^verbatim>\<open>normalized\<close>
  and \<^verbatim>\<open>issues\<close>.
\<close>

record vstate =
  v_heap :: heap
  v_seen :: "atom list"
  v_normalized :: "sval list"
  v_issues :: "issue list"

text \<open>
  Lines 91 to 97: the list of conditions the rule is validated with. It is the rule's
  own list object when the rule has one, and a new empty list otherwise.
\<close>

definition conditions_list ::
  "heap \<Rightarrow> sval \<Rightarrow> (string \<times> sval) list \<Rightarrow> heap \<times> addr \<times> sval list \<times> issue list" where
  "conditions_list h rid d =
     (case map_of d ''conditions'' of
        None \<Rightarrow> (snd (alloc h (OList [])), fst (alloc h (OList [])), [], [])
      | Some conds \<Rightarrow>
          if conds = Imm ANone then
            (snd (alloc h (OList [])), fst (alloc h (OList [])), [], [ConditionsNone rid])
          else (case list_at h conds of
                  None \<Rightarrow> (snd (alloc h (OList [])), fst (alloc h (OList [])), [],
                            [ConditionsNotAList rid])
                | Some (l, items) \<Rightarrow> (h, l, items, [])))"

text \<open>The confidence a rule gets when it has none or an invalid one (lines 85 and 89).\<close>

definition default_confidence :: real where
  "default_confidence = 0.5"

text \<open>
  The body of the loop over the rules (lines 72 to 118). \<^verbatim>\<open>rid in seen_ids\<close> hashes
  \<^verbatim>\<open>rid\<close>, which raises TypeError for a list or a dictionary. \<^verbatim>\<open>dict(r)\<close> copies
  the entries of \<^verbatim>\<open>r\<close> as they are after the loop over the conditions.
\<close>

definition validate_rule :: "builtins \<Rightarrow> nat \<Rightarrow> sval \<Rightarrow> vstate \<Rightarrow> py_error + vstate" where
  "validate_rule B i r st =
     (case dict_at (v_heap st) r of
        None \<Rightarrow> Inr (st\<lparr>v_issues := v_issues st @ [RuleNotADict i]\<rparr>)
      | Some (ra, d) \<Rightarrow>
          (case get_or (map_of d ''id'') (Imm ANone) of
             Ref x \<Rightarrow> Inl TypeError
           | Imm rid_atom \<Rightarrow>
               if rid_atom = ANone then Inr (st\<lparr>v_issues := v_issues st @ [RuleMissingId i]\<rparr>)
               else
                 (let rid = Imm rid_atom;
                      iss1 = (if list_ex (\<lambda>x. atom_eq x rid_atom) (v_seen st)
                              then [DuplicateId rid] else []);
                      iss2 = (if sval_truthy (v_heap st) (get_or (map_of d ''name'') (Imm ANone))
                              then [] else [RuleMissingName rid]);
                      conf = get_or (map_of d ''confidence'') (Imm (AFloat default_confidence));
                      iss3 = (case normalize_confidence_raw B conf of
                                None \<Rightarrow> [InvalidConfidence rid conf]
                              | Some x \<Rightarrow> []);
                      norm = (case normalize_confidence_raw B conf of
                                None \<Rightarrow> default_confidence
                              | Some x \<Rightarrow> x);
                      (h1, l, items, iss4) = conditions_list (v_heap st) rid d;
                      (h2, iss5) =
                        validate_conds B rid 0 items
                          (h1, v_issues st @ iss1 @ iss2 @ iss3 @ iss4);
                      nr = AList.update ''conditions'' (Ref l)
                             (AList.update ''confidence'' (Imm (AFloat norm))
                                (case heap_get h2 ra of Some (ODict d2) \<Rightarrow> d2 | _ \<Rightarrow> d))
                  in Inr \<lparr>v_heap = snd (alloc h2 (ODict nr)),
                          v_seen = v_seen st @ [rid_atom],
                          v_normalized = v_normalized st @ [Ref (fst (alloc h2 (ODict nr)))],
                          v_issues = iss5\<rparr>)))"

fun validate_loop :: "builtins \<Rightarrow> nat \<Rightarrow> sval list \<Rightarrow> vstate \<Rightarrow> py_error + vstate" where
  "validate_loop B i [] st = Inr st"
| "validate_loop B i (r # rs) st =
     (case validate_rule B i r st of
        Inl e \<Rightarrow> Inl e
      | Inr st' \<Rightarrow> validate_loop B (Suc i) rs st')"

text \<open>
  \<^verbatim>\<open>validate_rules\<close> (lines 64 to 119): from the store and the elements of
  \<^verbatim>\<open>rules\<close> to the new store, the elements of \<^verbatim>\<open>normalized\<close> and the issues.
\<close>

definition validate_rules ::
  "builtins \<Rightarrow> heap \<Rightarrow> sval list \<Rightarrow> py_error + (heap \<times> sval list \<times> issue list)" where
  "validate_rules B h rules =
     (case validate_loop B 0 rules \<lparr>v_heap = h, v_seen = [], v_normalized = [], v_issues = []\<rparr> of
        Inl e \<Rightarrow> Inl e
      | Inr st \<Rightarrow> Inr (v_heap st, v_normalized st, v_issues st))"

subsection \<open>Merging\<close>

text \<open>
  \<^verbatim>\<open>r['id']\<close> (line 123): TypeError when \<^verbatim>\<open>r\<close> is no dictionary, KeyError when it
  has no \<^verbatim>\<open>id\<close>.
\<close>

definition subscript_id :: "heap \<Rightarrow> sval \<Rightarrow> py_error + sval" where
  "subscript_id h r =
     (case dict_at h r of
        None \<Rightarrow> Inl TypeError
      | Some (a, d) \<Rightarrow> (case map_of d ''id'' of None \<Rightarrow> Inl KeyError | Some v \<Rightarrow> Inr v))"

text \<open>
  \<^verbatim>\<open>by_id[k] = r\<close> on a dictionary held as the list of its entries: keys are equal
  when \<^verbatim>\<open>==\<close> says so, an entry that is there keeps its place and its key, a new one
  goes to the end. A key that is a list or a dictionary is unhashable.
\<close>

fun dict_put :: "(atom \<times> sval) list \<Rightarrow> atom \<Rightarrow> sval \<Rightarrow> (atom \<times> sval) list" where
  "dict_put [] k v = [(k, v)]"
| "dict_put ((k', v') # es) k v =
     (if atom_eq k' k then (k', v) # es else (k', v') # dict_put es k v)"

fun dict_lookup :: "(atom \<times> sval) list \<Rightarrow> atom \<Rightarrow> sval option" where
  "dict_lookup [] k = None"
| "dict_lookup ((k', v') # es) k = (if atom_eq k' k then Some v' else dict_lookup es k)"

definition put_by_id :: "(atom \<times> sval) list \<Rightarrow> sval \<Rightarrow> sval \<Rightarrow> py_error + (atom \<times> sval) list" where
  "put_by_id by_id k r =
     (case k of Ref a \<Rightarrow> Inl TypeError | Imm ka \<Rightarrow> Inr (dict_put by_id ka r))"

text \<open>Line 123, the dictionary comprehension over \<^verbatim>\<open>existing\<close>.\<close>

fun key_existing :: "heap \<Rightarrow> sval list \<Rightarrow> (atom \<times> sval) list \<Rightarrow> py_error + (atom \<times> sval) list" where
  "key_existing h [] by_id = Inr by_id"
| "key_existing h (r # rs) by_id =
     (case subscript_id h r of
        Inl e \<Rightarrow> Inl e
      | Inr k \<Rightarrow> (case put_by_id by_id k r of
                   Inl e \<Rightarrow> Inl e
                 | Inr by_id' \<Rightarrow> key_existing h rs by_id'))"

text \<open>Lines 124 to 127, the loop over \<^verbatim>\<open>new\<close>.\<close>

fun put_new :: "heap \<Rightarrow> sval list \<Rightarrow> (atom \<times> sval) list \<Rightarrow> py_error + (atom \<times> sval) list" where
  "put_new h [] by_id = Inr by_id"
| "put_new h (r # rs) by_id =
     (case dict_at h r of
        None \<Rightarrow> put_new h rs by_id
      | Some (a, d) \<Rightarrow>
          (case map_of d ''id'' of
             None \<Rightarrow> put_new h rs by_id
           | Some k \<Rightarrow> (case put_by_id by_id k r of
                         Inl e \<Rightarrow> Inl e
                       | Inr by_id' \<Rightarrow> put_new h rs by_id')))"

text \<open>
  \<^verbatim>\<open>sorted(by_id.keys())\<close>: numbers sort by value and strings by code point. The
  keys differ pairwise, so two or more keys that are not all numbers or all strings
  meet in a comparison that raises TypeError; no comparison is made for fewer.
\<close>

definition num_key :: "atom \<Rightarrow> real" where
  "num_key a = (case num_of a of None \<Rightarrow> 0 | Some x \<Rightarrow> x)"

definition str_key :: "atom \<Rightarrow> string" where
  "str_key a = (case a of AStr s \<Rightarrow> s | _ \<Rightarrow> [])"

definition sorted_keys :: "atom list \<Rightarrow> py_error + atom list" where
  "sorted_keys ks =
     (if length ks \<le> 1 then Inr ks
      else if list_all (\<lambda>a. num_of a \<noteq> None) ks then Inr (sort_key num_key ks)
      else if list_all (\<lambda>a. case a of AStr s \<Rightarrow> True | _ \<Rightarrow> False) ks
      then Inr (sort_key str_key ks)
      else Inl TypeError)"

text \<open>\<^verbatim>\<open>merge_rules\<close> (lines 122 to 129). It reads the store and changes nothing in it.\<close>

definition merge_rules :: "heap \<Rightarrow> sval list \<Rightarrow> sval list \<Rightarrow> py_error + sval list" where
  "merge_rules h existing new =
     (case key_existing h existing [] of
        Inl e \<Rightarrow> Inl e
      | Inr by_id0 \<Rightarrow>
          (case put_new h new by_id0 of
             Inl e \<Rightarrow> Inl e
           | Inr by_id \<Rightarrow>
               (case sorted_keys (map fst by_id) of
                  Inl e \<Rightarrow> Inl e
                | Inr ks \<Rightarrow> Inr (map (\<lambda>k. get_or (dict_lookup by_id k) (Imm ANone)) ks))))"

subsection \<open>Notions used in the statements about the importer\<close>

text \<open>
  A condition dictionary after validation: \<^verbatim>\<open>op\<close> is inserted as \<^verbatim>\<open>'=='\<close> when it is
  missing, and \<^verbatim>\<open>weight\<close> is overwritten with its \<^verbatim>\<open>float\<close>, or with 1.0 when
  it has none (a missing weight counts as 1.0).
\<close>

definition weight_or_default :: "builtins \<Rightarrow> (string \<times> sval) list \<Rightarrow> real" where
  "weight_or_default B c =
     (case sval_float B (get_or (map_of c ''weight'') (Imm (AFloat 1))) of
        Inl e \<Rightarrow> 1
      | Inr x \<Rightarrow> x)"

definition normalized_cond :: "builtins \<Rightarrow> (string \<times> sval) list \<Rightarrow> (string \<times> sval) list" where
  "normalized_cond B c =
     AList.update ''weight'' (Imm (AFloat (weight_or_default B c)))
       (if map_of c ''op'' = None then AList.update ''op'' (Imm (AStr ''=='')) c else c)"

text \<open>
  The confidence a kept rule gets: the normalized value, or 0.5 when
  \<^verbatim>\<open>_normalize_confidence_raw\<close> returns \<^verbatim>\<open>None\<close>; a rule without the key is read
  as 0.5.
\<close>

definition raw_confidence :: "(string \<times> sval) list \<Rightarrow> sval" where
  "raw_confidence d = get_or (map_of d ''confidence'') (Imm (AFloat default_confidence))"

definition confidence_of :: "builtins \<Rightarrow> (string \<times> sval) list \<Rightarrow> real" where
  "confidence_of B d =
     (case normalize_confidence_raw B (raw_confidence d) of
        None \<Rightarrow> default_confidence
      | Some x \<Rightarrow> x)"

text \<open>
  The rules \<^verbatim>\<open>validate_rules\<close> keeps: the dictionaries with an \<^verbatim>\<open>id\<close> that is not
  \<^verbatim>\<open>None\<close>.
\<close>

definition rule_id :: "(string \<times> sval) list \<Rightarrow> sval" where
  "rule_id d = get_or (map_of d ''id'') (Imm ANone)"

definition kept_rule :: "heap \<Rightarrow> sval \<Rightarrow> bool" where
  "kept_rule h r =
     (case dict_at h r of None \<Rightarrow> False | Some (a, d) \<Rightarrow> rule_id d \<noteq> Imm ANone)"

text \<open>
  How the store moves during validation: it grows, and an object that was there is
  unchanged or is a dictionary that has become its validated form. Lists never change.
\<close>

definition evolves :: "builtins \<Rightarrow> heap \<Rightarrow> heap \<Rightarrow> bool" where
  "evolves B h h' =
     (length h \<le> length h' \<and>
      (\<forall>a<length h. h' ! a = h ! a \<or>
                     (\<exists>d. h ! a = ODict d \<and> h' ! a = ODict (normalized_cond B d))))"

text \<open>
  The output \<open>out\<close> (in the store \<open>h'\<close> after validation) of the kept rule \<open>r\<close> (in
  the store \<open>h\<close> before it), as far as the confidence goes: \<open>out\<close> is a dictionary
  whose \<^verbatim>\<open>confidence\<close> is the normalized one, and the issues hold an
  invalid-confidence issue for the rule when the raw confidence normalizes to
  \<^verbatim>\<open>None\<close>.
\<close>

definition confidence_validated ::
  "builtins \<Rightarrow> heap \<Rightarrow> heap \<Rightarrow> issue list \<Rightarrow> sval \<Rightarrow> sval \<Rightarrow> bool" where
  "confidence_validated B h h' iss r out =
     (\<exists>ra d na nd.
        dict_at h r = Some (ra, d) \<and> dict_at h' out = Some (na, nd) \<and>
        map_of nd ''confidence'' = Some (Imm (AFloat (confidence_of B d))) \<and>
        (normalize_confidence_raw B (raw_confidence d) = None \<longrightarrow>
           InvalidConfidence (rule_id d) (raw_confidence d) \<in> set iss))"

text \<open>
  The same, as far as sharing goes: \<open>out\<close> is a new dictionary with the entries of
  \<open>r\<close> (but \<^verbatim>\<open>confidence\<close> and \<^verbatim>\<open>conditions\<close>, and \<^verbatim>\<open>op\<close> and \<^verbatim>\<open>weight\<close>
  should \<open>r\<close> itself be among the validated conditions); when \<open>r\<close> has a list of
  conditions, \<open>out\<close> refers to that very list object, the list holds the elements it
  held, and every dictionary among them is, at its own address, in its validated form.
\<close>

definition conditions_shared :: "builtins \<Rightarrow> heap \<Rightarrow> heap \<Rightarrow> sval \<Rightarrow> sval \<Rightarrow> bool" where
  "conditions_shared B h h' r out =
     (\<exists>ra d na nd.
        dict_at h r = Some (ra, d) \<and> dict_at h' out = Some (na, nd) \<and> length h \<le> na \<and>
        (\<forall>k. k \<notin> {''confidence'', ''conditions'', ''op'', ''weight''} \<longrightarrow>
               map_of nd k = map_of d k) \<and>
        (\<forall>l cs. map_of d ''conditions'' = Some (Ref l) \<and> heap_get h l = Some (OList cs) \<longrightarrow>
           map_of nd ''conditions'' = Some (Ref l) \<and>
           heap_get h' l = Some (OList cs) \<and>
           (\<forall>ca cd. Ref ca \<in> set cs \<and> heap_get h ca = Some (ODict cd) \<longrightarrow>
                heap_get h' ca = Some (ODict (normalized_cond B cd)))))"

text \<open>Both at once, for one rule and its output.\<close>

definition validated ::
  "builtins \<Rightarrow> heap \<Rightarrow> heap \<Rightarrow> issue list \<Rightarrow> sval \<Rightarrow> sval \<Rightarrow> bool" where
  "validated B h h' iss r out =
     (confidence_validated B h h' iss r out \<and> conditions_shared B h h' r out)"

text \<open>
  The merge in the words of the spec, for rules whose \<^verbatim>\<open>id\<close> is an integer: a map
  keyed by \<^verbatim>\<open>id\<close> is built from the existing rules, every incoming rule is written
  into it under its \<^verbatim>\<open>id\<close> (the last write wins), and the result is the map's
  values by ascending \<^verbatim>\<open>id\<close>.
\<close>

definition int_id :: "heap \<Rightarrow> sval \<Rightarrow> int option" where
  "int_id h r =
     (case dict_at h r of
        None \<Rightarrow> None
      | Some (a, d) \<Rightarrow> (case map_of d ''id'' of Some (Imm (AInt i)) \<Rightarrow> Some i | _ \<Rightarrow> None))"

definition keyed :: "heap \<Rightarrow> sval list \<Rightarrow> (int \<Rightarrow> sval option) \<Rightarrow> (int \<Rightarrow> sval option)" where
  "keyed h rs m = fold (\<lambda>r m. case int_id h r of None \<Rightarrow> m | Some i \<Rightarrow> m(i \<mapsto> r)) rs m"

definition merged_catalog :: "heap \<Rightarrow> sval list \<Rightarrow> sval list \<Rightarrow> sval list" where
  "merged_catalog h existing incoming =
     (let m = keyed h incoming (keyed h existing Map.empty)
      in map (\<lambda>i. the (m i)) (sorted_list_of_set (dom m)))"

text \<open>
  An incoming entry is skipped when it is no dictionary or has no \<^verbatim>\<open>id\<close> (line 125);
  otherwise its \<^verbatim>\<open>id\<close> is to be an integer.
\<close>

definition int_id_or_skipped :: "heap \<Rightarrow> sval \<Rightarrow> bool" where
  "int_id_or_skipped h r =
     (case dict_at h r of
        None \<Rightarrow> True
      | Some (a, d) \<Rightarrow> (case map_of d ''id'' of None \<Rightarrow> True | Some k \<Rightarrow> int_id h r \<noteq> None))"

text \<open>The dictionary \<^verbatim>\<open>by_id\<close> holds the map \<open>m\<close>.\<close>

definition holds_map :: "(atom \<times> sval) list \<Rightarrow> (int \<Rightarrow> sval option) \<Rightarrow> bool" where
  "holds_map by_id m =
     ((\<exists>ks. map fst by_id = map AInt ks \<and> distinct ks \<and> set ks = dom m) \<and>
      (\<forall>i. dict_lookup by_id (AInt i) = m i))"

text \<open>
  Examples. A store with four rules, whose confidences are a percentage, a negative
  number, a string that is no number and zero, and a dictionary without an \<^verbatim>\<open>id\<close>.
\<close>

definition conf_heap :: heap where
  "conf_heap =
     [ODict [(''id'', Imm (AInt 1)), (''name'', Imm (AStr ''A'')), (''confidence'', Imm (AInt 85))],
      ODict [(''id'', Imm (AInt 2)), (''name'', Imm (AStr ''B'')), (''confidence'', Imm (AInt (- 1)))],
      ODict [(''id'', Imm (AInt 3)), (''name'', Imm (AStr ''C'')),
             (''confidence'', Imm (AStr ''high''))],
      ODict [(''id'', Imm (AInt 4)), (''name'', Imm (AStr ''D'')), (''confidence'', Imm (AInt 0))],
      ODict [(''name'', Imm (AStr ''E''))]]"

definition conf_heap_after :: heap where
  "conf_heap_after =
     conf_heap @
     [OList [],
      ODict [(''id'', Imm (AInt 1)), (''name'', Imm (AStr ''A'')),
             (''confidence'', Imm (AFloat 0.85)), (''conditions'', Ref 5)],
      OList [],
      ODict [(''id'', Imm (AInt 2)), (''name'', Imm (AStr ''B'')),
             (''confidence'', Imm (AFloat 0.5)), (''conditions'', Ref 7)],
      OList [],
      ODict [(''id'', Imm (AInt 3)), (''name'', Imm (AStr ''C'')),
             (''confidence'', Imm (AFloat 0.5)), (''conditions'', Ref 9)],
      OList [],
      ODict [(''id'', Imm (AInt 4)), (''name'', Imm (AStr ''D'')),
             (''confidence'', Imm (AFloat 0)), (''conditions'', Ref 11)]]"

definition conf_issues :: "issue list" where
  "conf_issues =
     [InvalidConfidence (Imm (AInt 2)) (Imm (AInt (- 1))),
      InvalidConfidence (Imm (AInt 3)) (Imm (AStr ''high'')),
      RuleMissingId 4]"

text \<open>
  A store with one rule (address 0) whose list of conditions (address 1) holds two
  condition dictionaries (addresses 2 and 3): the first has no \<^verbatim>\<open>op\<close> and no
  \<^verbatim>\<open>weight\<close>, the weight of the second is the string \<^verbatim>\<open>'2'\<close>.
\<close>

definition shared_heap :: heap where
  "shared_heap =
     [ODict [(''id'', Imm (AInt 7)), (''name'', Imm (AStr ''Overheating'')),
             (''confidence'', Imm (AFloat 0.9)), (''conditions'', Ref 1)],
      OList [Ref 2, Ref 3],
      ODict [(''type'', Imm (AStr ''cpu_temp'')), (''value'', Imm (AInt 85))],
      ODict [(''type'', Imm (AStr ''fan_ok'')), (''op'', Imm (AStr ''is_false'')),
             (''weight'', Imm (AStr ''2''))]]"

definition shared_heap_after :: heap where
  "shared_heap_after =
     [ODict [(''id'', Imm (AInt 7)), (''name'', Imm (AStr ''Overheating'')),
             (''confidence'', Imm (AFloat 0.9)), (''conditions'', Ref 1)],
      OList [Ref 2, Ref 3],
      ODict [(''type'', Imm (AStr ''cpu_temp'')), (''value'', Imm (AInt 85)),
             (''op'', Imm (AStr ''=='')), (''weight'', Imm (AFloat 1))],
      ODict [(''type'', Imm (AStr ''fan_ok'')), (''op'', Imm (AStr ''is_false'')),
             (''weight'', Imm (AFloat 2))],
      ODict [(''id'', Imm (AInt 7)), (''name'', Imm (AStr ''Overheating'')),
             (''confidence'', Imm (AFloat 0.9)), (''conditions'', Ref 1)]]"

text \<open>
  A store with the rules of a merge: two existing rules with the ids 2 and 1, an
  incoming rule with the id 2, and an incoming dictionary without an \<^verbatim>\<open>id\<close>.
\<close>

definition merge_heap :: heap where
  "merge_heap =
     [ODict [(''id'', Imm (AInt 2)), (''name'', Imm (AStr ''A'')), (''remedy'', Imm (AStr ''old''))],
      ODict [(''id'', Imm (AInt 1)), (''name'', Imm (AStr ''B''))],
      ODict [(''id'', Imm (AInt 2)), (''name'', Imm (AStr ''C''))],
      ODict [(''name'', Imm (AStr ''D''))]]"

text \<open>
  A rule dictionary whose \<^verbatim>\<open>id\<close> is a list or a dictionary: the only input at which
  \<^verbatim>\<open>validate_rules\<close> raises (the membership test of line 79 hashes the \<^verbatim>\<open>id\<close>).
\<close>

definition unhashable_id :: "heap \<Rightarrow> sval \<Rightarrow> bool" where
  "unhashable_id h r =
     (case dict_at h r of
        None \<Rightarrow> False
      | Some (a, d) \<Rightarrow> (case rule_id d of Ref x \<Rightarrow> True | Imm x \<Rightarrow> False))"

section \<open>Properties of the condition evaluator and the rule scorer\<close>

lemma dict_find_hashable: "hashable k \<Longrightarrow> \<exists>r. dict_find d k = Inr r"
  by (cases k) (auto simp: dict_find_def split: atom.splits)

lemma dict_find_unhashable: "\<not> hashable k \<Longrightarrow> dict_find d k = Inl TypeError"
  by (cases k) (auto simp: dict_find_def)

lemma check_condition_returns:
  assumes "keys_hashable c"
  shows "check_condition B facts c = Inr (holds B facts c)"
proof -
  from assms obtain r1 where r1: "dict_find facts (get_or (c_type c) PNone) = Inr r1"
    using dict_find_hashable unfolding keys_hashable_def by blast
  from assms obtain r2 where r2: "dict_find OPS (get_or (c_op c) (PStr ''=='')) = Inr r2"
    using dict_find_hashable unfolding keys_hashable_def by blast
  have "\<not> isl (check_condition B facts c)"
    unfolding check_condition_def Let_def
    by (simp add: r1 r2 split: option.splits sum.splits)
  then show ?thesis
    by (cases "check_condition B facts c") (auto simp: holds_def)
qed

lemma eval_conds_result:
  "eval_conds B facts cs (tw, mw, m, u) = Inr (tw', mw', m', u') \<Longrightarrow>
     tw' = tw + sum_list (map (weight_of B) cs) \<and>
     mw' = mw + sum_list (map (weight_of B) (filter (holds B facts) cs)) \<and>
     m' = m @ filter (holds B facts) cs \<and>
     u' = u @ filter (\<lambda>c. \<not> holds B facts c) cs"
proof (induction cs arbitrary: tw mw m u)
  case Nil
  then show ?case by simp
next
  case (Cons c cs)
  from Cons.prems obtain w where w: "py_float B (get_or (c_weight c) (PFloat 1)) = Inr w"
    by (auto split: sum.splits)
  from Cons.prems w obtain ok where ok: "check_condition B facts c = Inr ok"
    by (auto split: sum.splits)
  have wo: "weight_of B c = w" by (simp add: weight_of_def w)
  show ?case
  proof (cases ok)
    case True
    with Cons.prems w ok
    have "eval_conds B facts cs (tw + w, mw + w, m @ [c], u) = Inr (tw', mw', m', u')" by simp
    from Cons.IH[OF this] show ?thesis using True ok wo by (simp add: holds_def)
  next
    case False
    with Cons.prems w ok
    have "eval_conds B facts cs (tw + w, mw, m, u @ [c]) = Inr (tw', mw', m', u')" by simp
    from Cons.IH[OF this] show ?thesis using False ok wo by (simp add: holds_def)
  qed
qed

lemma eval_conds_returns:
  "list_all (\<lambda>c. keys_hashable c \<and> weight_coercible B c) cs \<Longrightarrow>
     \<not> isl (eval_conds B facts cs (tw, mw, m, u))"
proof (induction cs arbitrary: tw mw m u)
  case Nil
  then show ?case by simp
next
  case (Cons c cs)
  from Cons.prems have b: "check_condition B facts c = Inr (holds B facts c)"
    using check_condition_returns by simp
  from Cons.prems obtain w where w: "py_float B (get_or (c_weight c) (PFloat 1)) = Inr w"
    by (auto simp: weight_coercible_def split: sum.splits)
  from Cons.prems have rest: "list_all (\<lambda>c. keys_hashable c \<and> weight_coercible B c) cs" by simp
  show ?case using Cons.IH[OF rest] by (simp add: b w)
qed

lemma eval_negs_hit:
  "\<exists>c\<in>set cs. holds B facts c \<Longrightarrow> eval_negs B facts cs = Inr b \<Longrightarrow> b"
  by (induction cs) (auto simp: holds_def split: sum.splits if_splits)

lemma eval_negs_result:
  "eval_negs B facts cs = Inr b \<Longrightarrow> b = (\<exists>c\<in>set cs. holds B facts c)"
  by (induction cs) (auto simp: holds_def split: sum.splits if_splits)

lemma eval_negs_returns:
  "list_all keys_hashable cs \<Longrightarrow> \<not> isl (eval_negs B facts cs)"
proof (induction cs)
  case Nil
  then show ?case by simp
next
  case (Cons c cs)
  then have b: "check_condition B facts c = Inr (holds B facts c)"
    using check_condition_returns by simp
  with Cons show ?case by simp
qed

lemma evaluate_rule_returns:
  assumes "rule_well_formed B rule"
  shows "\<not> isl (evaluate_rule B rule facts)"
proof -
  from assms have "\<not> isl (eval_conds B facts (get_or (r_conditions rule) []) (0, 0, [], []))"
    unfolding rule_well_formed_def using eval_conds_returns by blast
  moreover from assms have "\<not> isl (eval_negs B facts (get_or (r_not_conditions rule) []))"
    unfolding rule_well_formed_def using eval_negs_returns by blast
  ultimately show ?thesis
    unfolding evaluate_rule_def
    by (auto simp: Let_def split: sum.splits prod.splits)
qed

lemma evaluate_rule_result:
  assumes "evaluate_rule B rule facts = Inr res"
  shows "total_weight res = sum_list (map (weight_of B) (get_or (r_conditions rule) []))"
    and "matched_weight res = sum_list (map (weight_of B) (filter (holds B facts) (get_or (r_conditions rule) [])))"
    and "matched_conditions res = filter (holds B facts) (get_or (r_conditions rule) [])"
    and "unmatched_conditions res = filter (\<lambda>c. \<not> holds B facts c) (get_or (r_conditions rule) [])"
    and "negation_triggered res = (\<exists>c\<in>set (get_or (r_not_conditions rule) []). holds B facts c)"
    and "match_ratio res = (if negation_triggered res \<or> total_weight res = 0 then 0 else matched_weight res / total_weight res)"
    and "confidence res = normalize_confidence B (get_or (r_confidence rule) (PFloat 0.5))"
    and "score res = confidence res * match_ratio res"
  using assms unfolding evaluate_rule_def
  by (auto simp: Let_def split: sum.splits prod.splits dest!: eval_conds_result eval_negs_result)


section \<open>Properties of the diagnosis ranker\<close>

lemma try_rule_candidate:
  "\<not> is_sentinel r \<Longrightarrow>
     (case try_rule B facts r of Inl e \<Rightarrow> [] | Inr ds \<Rightarrow> ds) =
     (case candidate B facts r of None \<Rightarrow> [] | Some d \<Rightarrow> [d])"
  by (auto simp: try_rule_def candidate_def diagnosis_of_def split: sum.splits option.splits)

lemma collect_matches_candidates:
  "collect_matches B facts rules matches = matches @ candidates B facts rules"
proof (induction rules arbitrary: matches)
  case Nil
  then show ?case by (simp add: candidates_def map_filter_simps)
next
  case (Cons r rs)
  show ?case
  proof (cases "is_sentinel r")
    case True
    then show ?thesis
      using Cons.IH by (simp add: candidates_def map_filter_simps candidate_def)
  next
    case False
    from try_rule_candidate[OF False, of B facts] Cons.IH False show ?thesis
      by (auto simp: candidates_def map_filter_simps split: sum.splits option.splits)
  qed
qed

lemma candidate_score_pos: "candidate B facts r = Some d \<Longrightarrow> d_score d > 0"
  by (auto simp: candidate_def diagnosis_of_def split: if_splits sum.splits option.splits)

lemma candidates_score_pos: "d \<in> set (candidates B facts rules) \<Longrightarrow> d_score d > 0"
  by (auto simp: candidates_def map_filter_def dest: candidate_score_pos)

lemma ranked_sorted_by_score_desc: "ranked (sorted_by_score_desc ms) ms"
proof -
  have "sorted (map (\<lambda>m. - d_score m) (sort_key (\<lambda>m. - d_score m) ms))"
    by (rule sorted_sort_key)
  then have "sorted_wrt (\<lambda>a b. d_score a \<ge> d_score b) (sort_key (\<lambda>m. - d_score m) ms)"
    by (simp add: sorted_map sorted_wrt_map)
  moreover have "filter (\<lambda>m. d_score m = s) (sort_key (\<lambda>m. - d_score m) ms) =
                 filter (\<lambda>m. d_score m = s) ms" for s
    using sort_key_stable[of "\<lambda>m. - d_score m" "- s" ms] by simp
  ultimately show ?thesis by (simp add: ranked_def sorted_by_score_desc_def)
qed


lemma run_diagnosis_on_tiers:
  "run_diagnosis_on B rules facts =
     (if filter (\<lambda>m. d_score m \<ge> 0.25) (candidates B facts rules) \<noteq> []
      then Inr (sorted_by_score_desc (filter (\<lambda>m. d_score m \<ge> 0.25) (candidates B facts rules)))
      else if candidates B facts rules \<noteq> []
      then Inr (take 3 (sorted_by_score_desc (candidates B facts rules)))
      else (case find_fallback rules of Inl e \<Rightarrow> Inl e | Inr fb \<Rightarrow> fallback_result B fb))"
  by (simp add: run_diagnosis_on_def collect_matches_candidates SCORE_THRESHOLD_def Let_def)

lemma sorted_by_score_desc_Nil_iff: "sorted_by_score_desc ms = [] \<longleftrightarrow> ms = []"
  by (metis length_0_conv length_sort sorted_by_score_desc_def)

lemma find_fallback_append:
  "\<forall>r\<in>set xs. \<exists>i. r_id r = Some i \<and> \<not> py_eq i (PInt 100) \<Longrightarrow>
     find_fallback (xs @ ys) = find_fallback ys"
  by (induction xs) auto

lemma mk_rule_cong: "i = j \<Longrightarrow> mk_rule i n c e r cs = mk_rule j n c e r cs"
  by simp

lemma r_id_mk_rule: "r_id (mk_rule i n c e r cs) = Some (PInt i)"
  by (simp add: mk_rule_def)

lemma atom_eq_AInt: "atom_eq (AInt i) (AInt j) = (i = j)"
  by (simp add: atom_eq_def)

lemma network_rules_no_sentinel:
  "\<forall>r\<in>set network_rules. \<exists>i. r_id r = Some i \<and> \<not> py_eq i (PInt 100)"
  unfolding network_rules_def
  by (simp add: r_id_mk_rule atom_eq_AInt cong: mk_rule_cong)

lemma find_fallback_computer_rules:
  "find_fallback computer_rules =
     Inr (Some (mk_rule 100 ''Insufficient Data to Diagnose'' 0.2
       ''Not enough facts supplied to identify root cause''
       ''Collect more diagnostics (ping, speedtest, temps, logs).''
       []))"
  unfolding computer_rules_def
  by (simp add: r_id_mk_rule atom_eq_AInt cong: mk_rule_cong)

lemma find_fallback_RULES:
  "find_fallback RULES =
     Inr (Some (mk_rule 100 ''Insufficient Data to Diagnose'' 0.2
       ''Not enough facts supplied to identify root cause''
       ''Collect more diagnostics (ping, speedtest, temps, logs).''
       []))"
  unfolding RULES_def
  by (simp only: find_fallback_append[OF network_rules_no_sentinel] find_fallback_computer_rules)

lemma fallback_RULES:
  "(case find_fallback RULES of Inl e \<Rightarrow> Inl e | Inr fb \<Rightarrow> fallback_result B fb) =
     Inr [insufficient_data]"
  by (simp add: find_fallback_RULES fallback_result_def mk_rule_def insufficient_data_def
        normalize_confidence_def get_or_def)

lemma candidates_Nil:
  assumes "\<forall>r\<in>set rules. case evaluate_rule B r facts of Inr res \<Rightarrow> \<not> score res > 0 | Inl e \<Rightarrow> True"
  shows "candidates B facts rules = []"
proof -
  have "candidate B facts r = None" if "r \<in> set rules" for r
    using assms that by (auto simp: candidate_def split: sum.splits)
  then show ?thesis by (simp add: candidates_def map_filter_def filter_empty_conv)
qed

lemma holds_no_facts: "\<not> holds B Map.empty c"
  by (auto simp: holds_def check_condition_def Let_def dict_find_def
           split: pyval.splits atom.splits)

lemma evaluate_rule_no_facts:
  assumes "evaluate_rule B r Map.empty = Inr res"
  shows "score res = 0"
proof -
  have "filter (holds B Map.empty) cs = []" for cs
    by (simp add: filter_empty_conv holds_no_facts)
  with evaluate_rule_result[OF assms] show ?thesis by simp
qed


section \<open>The claims about the engine\<close>

lemmas eval_simps = evaluate_rule_def check_condition_def get_or_def dict_find_def OPS_def
  coerce_def atom_eq_def atom_cmp_def normalize_confidence_def mk_cond_def

text \<open>
  C1. For every fact mapping, the empty one included, \<^verbatim>\<open>run_diagnosis\<close> returns a
  list of diagnoses that is not empty; when no rule of the catalog scores above zero,
  the list is the single "insufficient data" diagnosis of rule 100, with score 0,
  match ratio 0 and empty lists of matched and unmatched conditions.
\<close>

theorem run_diagnosis_total:
  "\<exists>ds. run_diagnosis B facts = Inr ds \<and> ds \<noteq> [] \<and>
        ((\<forall>r\<in>set RULES. case evaluate_rule B r facts of
                           Inr res \<Rightarrow> \<not> score res > 0
                         | Inl e \<Rightarrow> True) \<longrightarrow>
           ds = [insufficient_data])"
proof -
  let ?cs = "candidates B facts RULES"
  let ?ab = "filter (\<lambda>m. d_score m \<ge> 0.25) ?cs"
  consider (above) "?ab \<noteq> []" | (weak) "?ab = []" "?cs \<noteq> []" | (none) "?cs = []"
    by auto
  then show ?thesis
  proof cases
    case above
    then have cs: "?cs \<noteq> []" by auto
    have "run_diagnosis B facts = Inr (sorted_by_score_desc ?ab)"
      using above by (simp add: run_diagnosis_def run_diagnosis_on_tiers)
    moreover have "sorted_by_score_desc ?ab \<noteq> []"
      using above by (simp add: sorted_by_score_desc_Nil_iff)
    ultimately show ?thesis using cs candidates_Nil[of RULES B facts] by auto
  next
    case weak
    have "run_diagnosis B facts = Inr (take 3 (sorted_by_score_desc ?cs))"
      using weak by (simp add: run_diagnosis_def run_diagnosis_on_tiers)
    moreover have "take 3 (sorted_by_score_desc ?cs) \<noteq> []"
      using weak(2) by (simp add: sorted_by_score_desc_Nil_iff)
    ultimately show ?thesis using weak(2) candidates_Nil[of RULES B facts] by auto
  next
    case none
    then have "run_diagnosis B facts = Inr [insufficient_data]"
      by (simp add: run_diagnosis_def run_diagnosis_on_tiers fallback_RULES)
    then show ?thesis by simp
  qed
qed

text \<open>
  The instance of C1 at the empty fact mapping: no condition of any rule finds its fact,
  so no rule scores, and the result is the sentinel alone.
\<close>

theorem run_diagnosis_total_witness:
  "run_diagnosis decimal_builtins Map.empty = Inr [insufficient_data]"
proof -
  have none: "\<forall>r\<in>set RULES. case evaluate_rule decimal_builtins r Map.empty of
                                 Inr res \<Rightarrow> \<not> score res > 0
                               | Inl e \<Rightarrow> True"
    by (auto split: sum.splits dest: evaluate_rule_no_facts)
  from run_diagnosis_total[of decimal_builtins Map.empty] none show ?thesis by auto
qed

text \<open>
  C2. The three tiers of \<^verbatim>\<open>run_diagnosis\<close>, for every catalog (the function
  reads \<^verbatim>\<open>RULES\<close>): the candidates are the diagnoses of the rules other than the
  sentinel whose score is above zero; when some candidate scores at least 0.25, the
  result is exactly the candidates that do, by descending score and in catalog order
  among equal scores; otherwise, when there is a candidate, the result is the first
  three of the candidates in that order.
\<close>

theorem run_diagnosis_three_tier:
  "run_diagnosis B facts = run_diagnosis_on B RULES facts \<and>
   (\<forall>m\<in>set (candidates B facts rules). d_score m > 0) \<and>
   (filter (\<lambda>m. d_score m \<ge> 0.25) (candidates B facts rules) \<noteq> [] \<longrightarrow>
      (\<exists>ds. run_diagnosis_on B rules facts = Inr ds \<and>
            ranked ds (filter (\<lambda>m. d_score m \<ge> 0.25) (candidates B facts rules)))) \<and>
   (filter (\<lambda>m. d_score m \<ge> 0.25) (candidates B facts rules) = [] \<and>
    candidates B facts rules \<noteq> [] \<longrightarrow>
      (\<exists>ds. run_diagnosis_on B rules facts = Inr (take 3 ds) \<and>
            ranked ds (candidates B facts rules)))"
  using ranked_sorted_by_score_desc candidates_score_pos
  by (auto simp: run_diagnosis_def run_diagnosis_on_tiers)

text \<open>
  The instances of C2: in the sample catalog rules 4 and 5 score 0.95, rule 1 scores
  0.65 and rule 3 scores 0.475; in the weak catalog the four scores are 0.2, 0.1, 0.2
  and 0.1, all below the threshold.
\<close>

theorem run_diagnosis_three_tier_witness:
  "map_sum id (map d_id) (run_diagnosis_on decimal_builtins sample_catalog sample_facts) =
     Inr [PInt 4, PInt 5, PInt 1, PInt 3] \<and>
   (\<exists>ds. run_diagnosis_on decimal_builtins sample_catalog sample_facts = Inr ds \<and>
         ranked ds (filter (\<lambda>m. d_score m \<ge> 0.25)
                      (candidates decimal_builtins sample_facts sample_catalog))) \<and>
   map_sum id (map d_id) (run_diagnosis_on decimal_builtins weak_catalog weak_facts) =
     Inr [PInt 201, PInt 203, PInt 202] \<and>
   (\<exists>ds. run_diagnosis_on decimal_builtins weak_catalog weak_facts = Inr (take 3 ds) \<and>
         ranked ds (candidates decimal_builtins weak_facts weak_catalog))"
proof -
  have s1: "map d_score (candidates decimal_builtins sample_facts sample_catalog) =
              [0.65, 0.475, 0.95, 0.95]"
    by (simp add: candidates_def map_filter_simps candidate_def diagnosis_of_def is_sentinel_def
          sample_catalog_def sample_facts_def mk_rule_def eval_simps)
  have s2: "map d_score (candidates decimal_builtins weak_facts weak_catalog) =
              [0.2, 0.1, 0.2, 0.1]"
    by (simp add: candidates_def map_filter_simps candidate_def diagnosis_of_def is_sentinel_def
          weak_catalog_def weak_facts_def mk_rule_def eval_simps)
  have above1: "filter (\<lambda>m. d_score m \<ge> 0.25)
                  (candidates decimal_builtins sample_facts sample_catalog) \<noteq> []"
  proof -
    have "\<exists>s\<in>set (map d_score (candidates decimal_builtins sample_facts sample_catalog)). s \<ge> 0.25"
      unfolding s1 by simp
    then show ?thesis by (auto simp: filter_empty_conv)
  qed
  have above2: "filter (\<lambda>m. d_score m \<ge> 0.25)
                  (candidates decimal_builtins weak_facts weak_catalog) = []"
  proof -
    have "\<forall>s\<in>set (map d_score (candidates decimal_builtins weak_facts weak_catalog)). \<not> s \<ge> 0.25"
      unfolding s2 by simp
    then show ?thesis by (auto simp: filter_empty_conv)
  qed
  have cands2: "candidates decimal_builtins weak_facts weak_catalog \<noteq> []"
    using s2 by auto
  have ids1: "map_sum id (map d_id) (run_diagnosis_on decimal_builtins sample_catalog sample_facts) =
     Inr [PInt 4, PInt 5, PInt 1, PInt 3]"
    by (simp add: run_diagnosis_on_def try_rule_def is_sentinel_def sorted_by_score_desc_def
          SCORE_THRESHOLD_def sample_catalog_def sample_facts_def mk_rule_def eval_simps)
  have ids2: "map_sum id (map d_id) (run_diagnosis_on decimal_builtins weak_catalog weak_facts) =
     Inr [PInt 201, PInt 203, PInt 202]"
    by (simp add: run_diagnosis_on_def try_rule_def is_sentinel_def sorted_by_score_desc_def
          SCORE_THRESHOLD_def weak_catalog_def weak_facts_def mk_rule_def eval_simps)
  from run_diagnosis_three_tier[of decimal_builtins sample_facts sample_catalog] above1
  have t1: "\<exists>ds. run_diagnosis_on decimal_builtins sample_catalog sample_facts = Inr ds \<and>
         ranked ds (filter (\<lambda>m. d_score m \<ge> 0.25)
                      (candidates decimal_builtins sample_facts sample_catalog))"
    by blast
  from run_diagnosis_three_tier[of decimal_builtins weak_facts weak_catalog] above2 cands2
  have t2: "\<exists>ds. run_diagnosis_on decimal_builtins weak_catalog weak_facts = Inr (take 3 ds) \<and>
         ranked ds (candidates decimal_builtins weak_facts weak_catalog)"
    by blast
  from ids1 t1 ids2 t2 show ?thesis by blast
qed

text \<open>
  C3. When a condition of the rule's \<^verbatim>\<open>not_conditions\<close> evaluates to true against
  the facts, the result of \<^verbatim>\<open>evaluate_rule\<close> has \<^verbatim>\<open>negation_triggered\<close> set
  and \<^verbatim>\<open>match_ratio\<close> and \<^verbatim>\<open>score\<close> equal to 0, whatever the positive
  conditions did. \<^verbatim>\<open>evaluate_rule\<close> returns such a result for every rule whose
  weights convert to \<^verbatim>\<open>float\<close> and whose condition keys are hashable; it raises
  only for other rules.
\<close>

theorem evaluate_rule_negation_veto:
  assumes "\<exists>c\<in>set (get_or (r_not_conditions rule) []). check_condition B facts c = Inr True"
  shows "case evaluate_rule B rule facts of
           Inr res \<Rightarrow> negation_triggered res \<and> match_ratio res = 0 \<and> score res = 0
         | Inl e \<Rightarrow> \<not> rule_well_formed B rule"
proof (cases "evaluate_rule B rule facts")
  case (Inl e)
  then have "isl (evaluate_rule B rule facts)" by simp
  with evaluate_rule_returns have "\<not> rule_well_formed B rule" by blast
  with Inl show ?thesis by simp
next
  case (Inr res)
  from assms have "\<exists>c\<in>set (get_or (r_not_conditions rule) []). holds B facts c"
    by (simp add: holds_def)
  with evaluate_rule_result(5)[OF Inr] have neg: "negation_triggered res" by simp
  with evaluate_rule_result(6)[OF Inr] have ratio: "match_ratio res = 0" by simp
  with evaluate_rule_result(8)[OF Inr] have "score res = 0" by simp
  with neg ratio Inr show ?thesis by simp
qed

text \<open>
  The instance of C3: both positive conditions of the DNS rule match (matched weight 2
  of 2) and the negation matches too; the score is 0.
\<close>

theorem evaluate_rule_negation_veto_witness:
  "evaluate_rule decimal_builtins dns_rule_with_veto dns_facts_untested =
     Inr \<lparr>matched_conditions = [mk_cond ''ping_ip'' ''=='' (PStr ''success''),
                                 mk_cond ''ping_domain'' ''=='' (PStr ''fail'')],
          unmatched_conditions = [],
          total_weight = 2, matched_weight = 2, match_ratio = 0,
          confidence = 0.95, score = 0, negation_triggered = True\<rparr>"
proof -
  have hit: "\<exists>c\<in>set (get_or (r_not_conditions dns_rule_with_veto) []).
               check_condition decimal_builtins dns_facts_untested c = Inr True"
    by (simp add: dns_rule_with_veto_def dns_facts_untested_def eval_simps)
  have wf: "rule_well_formed decimal_builtins dns_rule_with_veto"
    by (simp add: rule_well_formed_def dns_rule_with_veto_def keys_hashable_def
          weight_coercible_def mk_cond_def get_or_def)
  from evaluate_rule_negation_veto[OF hit] wf
  obtain res where res: "evaluate_rule decimal_builtins dns_rule_with_veto dns_facts_untested = Inr res"
    and veto: "negation_triggered res" "match_ratio res = 0" "score res = 0"
    by (cases "evaluate_rule decimal_builtins dns_rule_with_veto dns_facts_untested") auto
  have "matched_conditions res = [mk_cond ''ping_ip'' ''=='' (PStr ''success''),
                                 mk_cond ''ping_domain'' ''=='' (PStr ''fail'')]"
    and "unmatched_conditions res = []"
    and "total_weight res = 2" and "matched_weight res = 2" and "confidence res = 0.95"
    using res
    by (auto simp: dns_rule_with_veto_def dns_facts_untested_def eval_simps)
  with veto res show ?thesis by (cases res) simp
qed












section \<open>Properties of the rule importer\<close>

lemma map_of_normalized_cond:
  "k \<noteq> ''op'' \<Longrightarrow> k \<noteq> ''weight'' \<Longrightarrow> map_of (normalized_cond B c) k = map_of c k"
  by (simp add: normalized_cond_def update_conv')

lemma map_of_normalized_cond_op:
  "map_of (normalized_cond B c) ''op'' =
     (if map_of c ''op'' = None then Some (Imm (AStr ''=='')) else map_of c ''op'')"
  by (simp add: normalized_cond_def update_conv')

lemma map_of_normalized_cond_weight:
  "map_of (normalized_cond B c) ''weight'' = Some (Imm (AFloat (weight_or_default B c)))"
  by (simp add: normalized_cond_def update_conv')

lemma weight_or_default_normalized:
  "weight_or_default B (normalized_cond B c) = weight_or_default B c"
  by (simp add: weight_or_default_def map_of_normalized_cond_weight get_or_def)

lemma normalized_cond_idem:
  "normalized_cond B (normalized_cond B c) = normalized_cond B c"
proof -
  let ?n = "normalized_cond B c"
  obtain v where op: "map_of ?n ''op'' = Some v"
    by (cases "map_of c ''op''") (auto simp: map_of_normalized_cond_op)
  have "normalized_cond B ?n =
          AList.update ''weight'' (Imm (AFloat (weight_or_default B ?n))) ?n"
    by (simp add: normalized_cond_def[of B ?n] op)
  also have "\<dots> = AList.update ''weight'' (Imm (AFloat (weight_or_default B c))) ?n"
    by (simp add: weight_or_default_normalized)
  also have "\<dots> = ?n"
    by (rule update_triv) (rule map_of_normalized_cond_weight)
  finally show ?thesis .
qed

lemma fst_validate_cond: "fst (validate_cond B rid j c) = normalized_cond B c"
  by (auto simp: validate_cond_def normalized_cond_def weight_or_default_def Let_def get_or_def
        update_conv' split: sum.splits option.splits)

lemma evolves_refl: "evolves B h h"
  by (simp add: evolves_def)

lemma evolves_trans:
  assumes "evolves B h1 h2" "evolves B h2 h3"
  shows "evolves B h1 h3"
  unfolding evolves_def
proof (intro conjI allI impI)
  show "length h1 \<le> length h3" using assms by (simp add: evolves_def)
next
  fix a assume a: "a < length h1"
  then have a2: "a < length h2" using assms(1) by (simp add: evolves_def)
  from assms(1) a
  have s12: "h2 ! a = h1 ! a \<or> (\<exists>d. h1 ! a = ODict d \<and> h2 ! a = ODict (normalized_cond B d))"
    by (simp add: evolves_def)
  from assms(2) a2
  have s23: "h3 ! a = h2 ! a \<or> (\<exists>d. h2 ! a = ODict d \<and> h3 ! a = ODict (normalized_cond B d))"
    by (simp add: evolves_def)
  from s12 show "h3 ! a = h1 ! a \<or> (\<exists>d. h1 ! a = ODict d \<and> h3 ! a = ODict (normalized_cond B d))"
  proof
    assume same: "h2 ! a = h1 ! a"
    from s23 show ?thesis
    proof
      assume "h3 ! a = h2 ! a"
      with same show ?thesis by simp
    next
      assume "\<exists>d. h2 ! a = ODict d \<and> h3 ! a = ODict (normalized_cond B d)"
      with same show ?thesis by simp
    qed
  next
    assume "\<exists>d. h1 ! a = ODict d \<and> h2 ! a = ODict (normalized_cond B d)"
    then obtain d where d: "h1 ! a = ODict d" "h2 ! a = ODict (normalized_cond B d)" by blast
    from s23 show ?thesis
    proof
      assume "h3 ! a = h2 ! a"
      with d show ?thesis by simp
    next
      assume "\<exists>d'. h2 ! a = ODict d' \<and> h3 ! a = ODict (normalized_cond B d')"
      with d show ?thesis by (auto simp: normalized_cond_idem)
    qed
  qed
qed

lemma evolves_alloc: "evolves B h (snd (alloc h ob))"
  by (simp add: evolves_def alloc_def nth_append)

lemma evolves_update:
  "heap_get h a = Some (ODict d) \<Longrightarrow> evolves B h (h[a := ODict (normalized_cond B d)])"
  by (auto simp: evolves_def heap_get_def nth_list_update split: if_splits)

lemma evolves_list:
  "evolves B h h' \<Longrightarrow> heap_get h a = Some (OList xs) \<Longrightarrow> heap_get h' a = Some (OList xs)"
  by (auto simp: evolves_def heap_get_def split: if_splits)

lemma evolves_dict:
  "evolves B h h' \<Longrightarrow> heap_get h a = Some (ODict d) \<Longrightarrow>
     heap_get h' a = Some (ODict d) \<or> heap_get h' a = Some (ODict (normalized_cond B d))"
  by (auto simp: evolves_def heap_get_def split: if_splits)

lemma evolves_normalized:
  "evolves B h h' \<Longrightarrow> heap_get h a = Some (ODict (normalized_cond B d)) \<Longrightarrow>
     heap_get h' a = Some (ODict (normalized_cond B d))"
  by (auto dest!: evolves_dict simp: normalized_cond_idem)

lemma validate_conds_result:
  "validate_conds B rid j cs (h, iss) = (h2, iss2) \<Longrightarrow>
     evolves B h h2 \<and> length h2 = length h \<and>
     (\<forall>ca cd. Ref ca \<in> set cs \<and> heap_get h ca = Some (ODict cd) \<longrightarrow>
         heap_get h2 ca = Some (ODict (normalized_cond B cd))) \<and>
     (\<exists>new. iss2 = iss @ new \<and> (\<forall>i c. InvalidConfidence i c \<notin> set new))"
proof (induction cs arbitrary: j h iss)
  case Nil
  then show ?case by (simp add: evolves_refl)
next
  case (Cons c cs)
  show ?case
  proof (cases "dict_at h c")
    case None
    with Cons.prems
    have "validate_conds B rid (Suc j) cs (h, iss @ [ConditionNotADict rid j]) = (h2, iss2)"
      by simp
    from Cons.IH[OF this] None show ?thesis
      by (auto simp: dict_at_def split: sval.splits option.splits obj.splits)
  next
    case (Some p)
    then obtain a d where p: "p = (a, d)" and c: "c = Ref a" and ha: "heap_get h a = Some (ODict d)"
      by (cases p) (auto simp: dict_at_def split: sval.splits option.splits obj.splits)
    let ?h1 = "h[a := ODict (normalized_cond B d)]"
    from Cons.prems Some p
    have run: "validate_conds B rid (Suc j) cs (?h1, iss @ snd (validate_cond B rid j d)) = (h2, iss2)"
      by (simp add: fst_validate_cond)
    note ih = Cons.IH[OF run]
    have e1: "evolves B h ?h1" by (rule evolves_update[OF ha])
    from ih have e2: "evolves B ?h1 h2" by simp
    have ev: "evolves B h h2" by (rule evolves_trans[OF e1 e2])
    have len: "length h2 = length h" using ih by simp
    have norm: "heap_get h2 ca = Some (ODict (normalized_cond B cd))"
      if "Ref ca \<in> set (c # cs)" "heap_get h ca = Some (ODict cd)" for ca cd
    proof -
      have h1ca: "heap_get ?h1 ca = Some (ODict cd) \<or> heap_get ?h1 ca = Some (ODict (normalized_cond B cd))"
        using evolves_dict[OF e1 that(2)] .
      show ?thesis
      proof (cases "ca = a")
        case True
        with that(2) ha have "cd = d" by simp
        with True ha have "heap_get ?h1 ca = Some (ODict (normalized_cond B cd))"
          by (auto simp: heap_get_def split: if_splits)
        from evolves_normalized[OF e2 this] show ?thesis .
      next
        case False
        with that(1) c have mem: "Ref ca \<in> set cs" by auto
        from False that(2) have "heap_get ?h1 ca = Some (ODict cd)"
          by (auto simp: heap_get_def split: if_splits)
        with ih mem show ?thesis by blast
      qed
    qed
    have iss: "\<exists>new. iss2 = iss @ new \<and> (\<forall>i c. InvalidConfidence i c \<notin> set new)"
    proof -
      from ih obtain new where new: "iss2 = (iss @ snd (validate_cond B rid j d)) @ new"
        "\<forall>i c. InvalidConfidence i c \<notin> set new" by blast
      have "\<forall>i c. InvalidConfidence i c \<notin> set (snd (validate_cond B rid j d))"
        by (auto simp: validate_cond_def Let_def split: sum.splits if_splits)
      with new show ?thesis by auto
    qed
    from ev len norm iss show ?thesis by blast
  qed
qed

lemma dict_at_SomeD:
  "dict_at h r = Some (a, d) \<Longrightarrow> r = Ref a \<and> heap_get h a = Some (ODict d)"
  by (auto simp: dict_at_def split: sval.splits option.splits obj.splits)

lemma dict_at_Ref: "heap_get h a = Some (ODict d) \<Longrightarrow> dict_at h (Ref a) = Some (a, d)"
  by (simp add: dict_at_def)

lemma list_at_SomeD:
  "list_at h r = Some (a, xs) \<Longrightarrow> r = Ref a \<and> heap_get h a = Some (OList xs)"
  by (auto simp: list_at_def split: sval.splits option.splits obj.splits)

lemma heap_get_lt: "heap_get h a = Some ob \<Longrightarrow> a < length h"
  by (auto simp: heap_get_def split: if_splits)

lemma heap_get_alloc_old:
  "heap_get h a = Some ob \<Longrightarrow> heap_get (snd (alloc h ob')) a = Some ob"
  by (auto simp: heap_get_def alloc_def nth_append split: if_splits)

lemma heap_get_alloc_new: "heap_get (snd (alloc h ob)) (fst (alloc h ob)) = Some ob"
  by (simp add: heap_get_def alloc_def)

lemma same_entries:
  assumes "d1 = d \<or> d1 = normalized_cond B d" "k \<noteq> ''op''" "k \<noteq> ''weight''"
  shows "map_of d1 k = map_of d k"
  using assms by (auto simp: map_of_normalized_cond)

lemma rule_id_same: "d1 = d \<or> d1 = normalized_cond B d \<Longrightarrow> rule_id d1 = rule_id d"
  by (auto simp: rule_id_def map_of_normalized_cond)

lemma raw_confidence_same:
  "d1 = d \<or> d1 = normalized_cond B d \<Longrightarrow> raw_confidence d1 = raw_confidence d"
  by (auto simp: raw_confidence_def map_of_normalized_cond)

lemma confidence_of_same:
  "d1 = d \<or> d1 = normalized_cond B d \<Longrightarrow> confidence_of B d1 = confidence_of B d"
  using raw_confidence_same[of d1 d B] by (simp add: confidence_of_def)

text \<open>What an earlier store says about a dictionary found in a later one.\<close>

lemma evolves_dict_back:
  assumes "evolves B h h1" "a < length h" "heap_get h1 a = Some (ODict d1)"
  shows "\<exists>d. heap_get h a = Some (ODict d) \<and> (d1 = d \<or> d1 = normalized_cond B d)"
  using assms by (auto simp: evolves_def heap_get_def split: if_splits)

lemma evolves_length: "evolves B h h' \<Longrightarrow> length h \<le> length h'"
  by (simp add: evolves_def)

lemma kept_rule_evolves:
  assumes "evolves B h h1" "\<forall>a. r = Ref a \<longrightarrow> a < length h"
  shows "kept_rule h1 r = kept_rule h r"
proof (cases r)
  case (Imm x)
  then show ?thesis by (simp add: kept_rule_def dict_at_def)
next
  case (Ref a)
  with assms(2) have a: "a < length h" by blast
  with assms(1) have a1: "a < length h1" by (auto dest: evolves_length)
  from a have hg: "heap_get h a = Some (h ! a)" by (simp add: heap_get_def)
  show ?thesis
  proof (cases "h ! a")
    case (OList xs)
    with hg have "heap_get h a = Some (OList xs)" by simp
    from evolves_list[OF assms(1) this] this Ref show ?thesis
      by (simp add: kept_rule_def dict_at_def)
  next
    case (ODict d)
    with hg have hd: "heap_get h a = Some (ODict d)" by simp
    from evolves_dict[OF assms(1) hd]
    obtain d1 where d1: "heap_get h1 a = Some (ODict d1)" "d1 = d \<or> d1 = normalized_cond B d"
      by auto
    from rule_id_same[OF d1(2)] d1(1) hd Ref show ?thesis
      by (simp add: kept_rule_def dict_at_def)
  qed
qed

lemma confidence_validated_mono:
  assumes cv: "confidence_validated B h1 h2 iss r out"
    and e1: "evolves B h h1" and e2: "evolves B h2 h3"
    and sub: "set iss \<subseteq> set iss'"
    and wf: "\<forall>a. r = Ref a \<longrightarrow> a < length h"
  shows "confidence_validated B h h3 iss' r out"
proof -
  from cv obtain ra d1 na nd where
    r1: "dict_at h1 r = Some (ra, d1)" and o2: "dict_at h2 out = Some (na, nd)"
    and conf: "map_of nd ''confidence'' = Some (Imm (AFloat (confidence_of B d1)))"
    and inv: "normalize_confidence_raw B (raw_confidence d1) = None \<longrightarrow>
                InvalidConfidence (rule_id d1) (raw_confidence d1) \<in> set iss"
    by (auto simp: confidence_validated_def)
  from dict_at_SomeD[OF r1] have r: "r = Ref ra" and h1ra: "heap_get h1 ra = Some (ODict d1)"
    by simp_all
  from wf r have ra: "ra < length h" by simp
  from evolves_dict_back[OF e1 ra h1ra]
  obtain d where hd: "heap_get h ra = Some (ODict d)" and dd: "d1 = d \<or> d1 = normalized_cond B d"
    by blast
  from dict_at_SomeD[OF o2] have out: "out = Ref na" and h2na: "heap_get h2 na = Some (ODict nd)"
    by simp_all
  from evolves_dict[OF e2 h2na]
  obtain nd' where h3na: "heap_get h3 na = Some (ODict nd')"
    and nn: "nd' = nd \<or> nd' = normalized_cond B nd" by auto
  have c3: "map_of nd' ''confidence'' = Some (Imm (AFloat (confidence_of B d)))"
    using same_entries[OF nn, of "''confidence''"] conf confidence_of_same[OF dd] by simp
  have i3: "normalize_confidence_raw B (raw_confidence d) = None \<longrightarrow>
              InvalidConfidence (rule_id d) (raw_confidence d) \<in> set iss'"
    using inv sub rule_id_same[OF dd] raw_confidence_same[OF dd] by auto
  from hd r have dr: "dict_at h r = Some (ra, d)" by (simp add: dict_at_Ref)
  from h3na out have dout: "dict_at h3 out = Some (na, nd')" by (simp add: dict_at_Ref)
  show ?thesis
    unfolding confidence_validated_def
    by (rule exI[of _ ra], rule exI[of _ d], rule exI[of _ na], rule exI[of _ nd'])
       (simp add: dr dout c3 i3)
qed

lemma conditions_shared_mono:
  assumes cs: "conditions_shared B h1 h2 r out"
    and e1: "evolves B h h1" and e2: "evolves B h2 h3"
    and wf: "\<forall>a. r = Ref a \<longrightarrow> a < length h"
  shows "conditions_shared B h h3 r out"
proof -
  from cs obtain ra d1 na nd where
    r1: "dict_at h1 r = Some (ra, d1)" and o2: "dict_at h2 out = Some (na, nd)"
    and fresh: "length h1 \<le> na"
    and others: "\<forall>k. k \<notin> {''confidence'', ''conditions'', ''op'', ''weight''} \<longrightarrow>
                   map_of nd k = map_of d1 k"
    and shared: "\<forall>l cs. map_of d1 ''conditions'' = Some (Ref l) \<and> heap_get h1 l = Some (OList cs) \<longrightarrow>
           map_of nd ''conditions'' = Some (Ref l) \<and>
           heap_get h2 l = Some (OList cs) \<and>
           (\<forall>ca cd. Ref ca \<in> set cs \<and> heap_get h1 ca = Some (ODict cd) \<longrightarrow>
                heap_get h2 ca = Some (ODict (normalized_cond B cd)))"
    by (auto simp: conditions_shared_def)
  from dict_at_SomeD[OF r1] have r: "r = Ref ra" and h1ra: "heap_get h1 ra = Some (ODict d1)"
    by simp_all
  from wf r have ra: "ra < length h" by simp
  from evolves_dict_back[OF e1 ra h1ra]
  obtain d where hd: "heap_get h ra = Some (ODict d)" and dd: "d1 = d \<or> d1 = normalized_cond B d"
    by blast
  from dict_at_SomeD[OF o2] have out: "out = Ref na" and h2na: "heap_get h2 na = Some (ODict nd)"
    by simp_all
  from evolves_dict[OF e2 h2na]
  obtain nd' where h3na: "heap_get h3 na = Some (ODict nd')"
    and nn: "nd' = nd \<or> nd' = normalized_cond B nd" by auto
  have fresh': "length h \<le> na" using fresh evolves_length[OF e1] by simp
  have others': "map_of nd' k = map_of d k"
    if "k \<notin> {''confidence'', ''conditions'', ''op'', ''weight''}" for k
  proof -
    from that have k: "k \<noteq> ''op''" "k \<noteq> ''weight''" by auto
    from same_entries[OF nn k] same_entries[OF dd k] others that show ?thesis by simp
  qed
  have shared': "map_of nd' ''conditions'' = Some (Ref l) \<and>
           heap_get h3 l = Some (OList cs) \<and>
           (\<forall>ca cd. Ref ca \<in> set cs \<and> heap_get h ca = Some (ODict cd) \<longrightarrow>
                heap_get h3 ca = Some (ODict (normalized_cond B cd)))"
    if l: "map_of d ''conditions'' = Some (Ref l)" "heap_get h l = Some (OList cs)" for l cs
  proof -
    from l(1) same_entries[OF dd, of "''conditions''"]
    have l1: "map_of d1 ''conditions'' = Some (Ref l)" by simp
    have hl1: "heap_get h1 l = Some (OList cs)" by (rule evolves_list[OF e1 l(2)])
    from shared l1 hl1 have s2: "map_of nd ''conditions'' = Some (Ref l)"
      "heap_get h2 l = Some (OList cs)"
      "\<forall>ca cd. Ref ca \<in> set cs \<and> heap_get h1 ca = Some (ODict cd) \<longrightarrow>
                heap_get h2 ca = Some (ODict (normalized_cond B cd))"
      by blast+
    have c3: "map_of nd' ''conditions'' = Some (Ref l)"
      using same_entries[OF nn, of "''conditions''"] s2(1) by simp
    have l3: "heap_get h3 l = Some (OList cs)" by (rule evolves_list[OF e2 s2(2)])
    have n3: "heap_get h3 ca = Some (ODict (normalized_cond B cd))"
      if "Ref ca \<in> set cs" "heap_get h ca = Some (ODict cd)" for ca cd
    proof -
      from evolves_dict[OF e1 that(2)]
      have "heap_get h1 ca = Some (ODict cd) \<or> heap_get h1 ca = Some (ODict (normalized_cond B cd))" .
      with s2(3) that(1) have "heap_get h2 ca = Some (ODict (normalized_cond B cd))"
        by (auto simp: normalized_cond_idem)
      from evolves_normalized[OF e2 this] show ?thesis .
    qed
    from c3 l3 n3 show ?thesis by blast
  qed
  from hd r have dr: "dict_at h r = Some (ra, d)" by (simp add: dict_at_Ref)
  from h3na out have dout: "dict_at h3 out = Some (na, nd')" by (simp add: dict_at_Ref)
  have o: "\<forall>k. k \<notin> {''confidence'', ''conditions'', ''op'', ''weight''} \<longrightarrow>
               map_of nd' k = map_of d k"
    using others' by blast
  have s: "\<forall>l cs. map_of d ''conditions'' = Some (Ref l) \<and> heap_get h l = Some (OList cs) \<longrightarrow>
           map_of nd' ''conditions'' = Some (Ref l) \<and>
           heap_get h3 l = Some (OList cs) \<and>
           (\<forall>ca cd. Ref ca \<in> set cs \<and> heap_get h ca = Some (ODict cd) \<longrightarrow>
                heap_get h3 ca = Some (ODict (normalized_cond B cd)))"
    using shared' by blast
  show ?thesis
    unfolding conditions_shared_def
    by (rule exI[of _ ra], rule exI[of _ d], rule exI[of _ na], rule exI[of _ nd'])
       (intro conjI dr dout fresh' o s)
qed

lemma conditions_list_result:
  assumes "conditions_list h rid d = (h1, l, items, iss4)"
  shows "evolves B h h1"
    and "heap_get h1 l = Some (OList items)"
    and "\<forall>i c. InvalidConfidence i c \<notin> set iss4"
    and "map_of d ''conditions'' = Some (Ref l0) \<Longrightarrow> heap_get h l0 = Some (OList cs) \<Longrightarrow>
           h1 = h \<and> l = l0 \<and> items = cs"
proof -
  show "evolves B h h1"
    using assms evolves_alloc[of B h "OList []"] evolves_refl[of B h]
    by (auto simp: conditions_list_def split: option.splits if_splits)
  show "heap_get h1 l = Some (OList items)"
    using assms heap_get_alloc_new[of h "OList []"]
    by (auto simp: conditions_list_def split: option.splits if_splits dest: list_at_SomeD)
  show "\<forall>i c. InvalidConfidence i c \<notin> set iss4"
    using assms by (auto simp: conditions_list_def split: option.splits if_splits)
  show "h1 = h \<and> l = l0 \<and> items = cs"
    if "map_of d ''conditions'' = Some (Ref l0)" "heap_get h l0 = Some (OList cs)"
    using assms that by (simp add: conditions_list_def list_at_def)
qed

lemma validate_rule_rejected:
  assumes "validate_rule B i r st = Inr st'" "\<not> kept_rule (v_heap st) r"
  shows "v_heap st' = v_heap st \<and> v_normalized st' = v_normalized st \<and>
         (\<exists>new. v_issues st' = v_issues st @ new \<and> (\<forall>i c. InvalidConfidence i c \<notin> set new))"
proof (cases "dict_at (v_heap st) r")
  case None
  with assms(1) show ?thesis by (auto simp: validate_rule_def)
next
  case (Some p)
  obtain ra d where p: "p = (ra, d)" by (cases p)
  from assms(2) Some p have "rule_id d = Imm ANone" by (simp add: kept_rule_def)
  with assms(1) Some p show ?thesis
    by (auto simp: validate_rule_def rule_id_def)
qed

lemma validate_rule_kept:
  assumes run: "validate_rule B i r st = Inr st'" and kept: "kept_rule (v_heap st) r"
  shows "\<exists>out. v_normalized st' = v_normalized st @ [out] \<and>
           confidence_validated B (v_heap st) (v_heap st') (v_issues st') r out \<and>
           conditions_shared B (v_heap st) (v_heap st') r out"
    and "evolves B (v_heap st) (v_heap st')"
    and "\<exists>new. v_issues st' = v_issues st @ new \<and>
           (\<forall>i c. InvalidConfidence i c \<in> set new \<longrightarrow> normalize_confidence_raw B c = None)"
proof -
  let ?h = "v_heap st"
  from kept obtain ra d where dr: "dict_at ?h r = Some (ra, d)" and idn: "rule_id d \<noteq> Imm ANone"
    by (auto simp: kept_rule_def split: option.splits)
  from run dr obtain x where rid: "rule_id d = Imm x"
    by (cases "rule_id d") (auto simp: validate_rule_def rule_id_def)
  with idn have x: "x \<noteq> ANone" by simp
  let ?rid = "Imm x"
  let ?conf = "get_or (map_of d ''confidence'') (Imm (AFloat default_confidence))"
  let ?iss1 = "if list_ex (\<lambda>y. atom_eq y x) (v_seen st) then [DuplicateId ?rid] else []"
  let ?iss2 = "if sval_truthy ?h (get_or (map_of d ''name'') (Imm ANone))
               then [] else [RuleMissingName ?rid]"
  let ?iss3 = "case normalize_confidence_raw B ?conf of
                 None \<Rightarrow> [InvalidConfidence ?rid ?conf] | Some y \<Rightarrow> []"
  obtain h1 l items iss4 where cl: "conditions_list ?h ?rid d = (h1, l, items, iss4)"
    by (metis prod_cases4)
  obtain h2 iss5 where vc:
    "validate_conds B ?rid 0 items (h1, v_issues st @ ?iss1 @ ?iss2 @ ?iss3 @ iss4) = (h2, iss5)"
    by (cases "validate_conds B ?rid 0 items (h1, v_issues st @ ?iss1 @ ?iss2 @ ?iss3 @ iss4)")
  let ?d2 = "case heap_get h2 ra of Some (ODict d2) \<Rightarrow> d2 | _ \<Rightarrow> d"
  let ?norm = "case normalize_confidence_raw B ?conf of None \<Rightarrow> default_confidence | Some y \<Rightarrow> y"
  let ?nr = "AList.update ''conditions'' (Ref l)
               (AList.update ''confidence'' (Imm (AFloat ?norm)) ?d2)"
  have conf: "?conf = raw_confidence d" by (simp add: raw_confidence_def)
  have norm: "?norm = confidence_of B d" by (simp add: confidence_of_def raw_confidence_def)
  from run dr rid x cl vc
  have st': "st' = \<lparr>v_heap = snd (alloc h2 (ODict ?nr)),
                     v_seen = v_seen st @ [x],
                     v_normalized = v_normalized st @ [Ref (fst (alloc h2 (ODict ?nr)))],
                     v_issues = iss5\<rparr>"
    by (simp add: validate_rule_def rule_id_def Let_def)
  note clr = conditions_list_result(1)[OF cl, of B] conditions_list_result(2)[OF cl]
    conditions_list_result(3)[OF cl] conditions_list_result(4)[OF cl]
  note vcr = validate_conds_result[OF vc]
  from dict_at_SomeD[OF dr] have r: "r = Ref ra" and hra: "heap_get ?h ra = Some (ODict d)"
    by simp_all
  have e01: "evolves B ?h h1" by (rule clr(1))
  have e12: "evolves B h1 h2" using vcr by simp
  have e02: "evolves B ?h h2" by (rule evolves_trans[OF e01 e12])
  have e23: "evolves B h2 (snd (alloc h2 (ODict ?nr)))" by (rule evolves_alloc)
  show ev: "evolves B (v_heap st) (v_heap st')"
    using evolves_trans[OF e02 e23] by (simp add: st')
  from evolves_dict[OF e02 hra]
  obtain d2 where h2ra: "heap_get h2 ra = Some (ODict d2)" and dd: "d2 = d \<or> d2 = normalized_cond B d"
    by auto
  then have d2: "?d2 = d2" by simp
  let ?na = "fst (alloc h2 (ODict ?nr))"
  have dout: "dict_at (v_heap st') (Ref ?na) = Some (?na, ?nr)"
    using heap_get_alloc_new[of h2 "ODict ?nr"] by (simp add: st' dict_at_def)
  from vcr obtain new where new: "iss5 = (v_issues st @ ?iss1 @ ?iss2 @ ?iss3 @ iss4) @ new"
    "\<forall>i c. InvalidConfidence i c \<notin> set new" by blast
  show "\<exists>new. v_issues st' = v_issues st @ new \<and>
           (\<forall>i c. InvalidConfidence i c \<in> set new \<longrightarrow> normalize_confidence_raw B c = None)"
  proof (intro exI conjI)
    show "v_issues st' = v_issues st @ (?iss1 @ ?iss2 @ ?iss3 @ iss4 @ new)"
      by (simp add: st' new(1))
    show "\<forall>i c. InvalidConfidence i c \<in> set (?iss1 @ ?iss2 @ ?iss3 @ iss4 @ new) \<longrightarrow>
            normalize_confidence_raw B c = None"
      using new(2) clr(3) by (auto split: option.splits if_splits)
  qed
  have cv: "confidence_validated B ?h (v_heap st') (v_issues st') r (Ref ?na)"
    unfolding confidence_validated_def
  proof (rule exI[of _ ra], rule exI[of _ d], rule exI[of _ ?na], rule exI[of _ ?nr], intro conjI)
    show "dict_at ?h r = Some (ra, d)" by (rule dr)
    show "dict_at (v_heap st') (Ref ?na) = Some (?na, ?nr)" by (rule dout)
    show "map_of ?nr ''confidence'' = Some (Imm (AFloat (confidence_of B d)))"
      by (simp add: update_conv' norm[symmetric])
    show "normalize_confidence_raw B (raw_confidence d) = None \<longrightarrow>
            InvalidConfidence (rule_id d) (raw_confidence d) \<in> set (v_issues st')"
      by (simp add: st' new(1) rid conf[symmetric])
  qed
  have len: "length ?h \<le> ?na"
    using evolves_length[OF e02] by (simp add: alloc_def)
  have cs: "conditions_shared B ?h (v_heap st') r (Ref ?na)"
    unfolding conditions_shared_def
  proof (rule exI[of _ ra], rule exI[of _ d], rule exI[of _ ?na], rule exI[of _ ?nr], intro conjI allI impI)
    show "dict_at ?h r = Some (ra, d)" by (rule dr)
    show "dict_at (v_heap st') (Ref ?na) = Some (?na, ?nr)" by (rule dout)
    show "length ?h \<le> ?na" by (rule len)
  next
    fix k :: string
    assume k: "k \<notin> {''confidence'', ''conditions'', ''op'', ''weight''}"
    then have "map_of ?nr k = map_of d2 k" by (simp add: update_conv' d2)
    also from k have "\<dots> = map_of d k" using same_entries[OF dd, of k] by simp
    finally show "map_of ?nr k = map_of d k" .
  next
    fix l0 cs
    assume a: "map_of d ''conditions'' = Some (Ref l0) \<and> heap_get ?h l0 = Some (OList cs)"
    with clr(4)[of l0 cs] have same: "h1 = ?h" "l = l0" "items = cs" by simp_all
    show "map_of ?nr ''conditions'' = Some (Ref l0)" by (simp add: update_conv' same)
    from a have "heap_get h2 l0 = Some (OList cs)" using evolves_list[OF e02] by simp
    then show "heap_get (v_heap st') l0 = Some (OList cs)"
      by (simp add: st' heap_get_alloc_old)
    fix ca cd
    assume c: "Ref ca \<in> set cs \<and> heap_get ?h ca = Some (ODict cd)"
    with vcr same have "heap_get h2 ca = Some (ODict (normalized_cond B cd))" by blast
    then show "heap_get (v_heap st') ca = Some (ODict (normalized_cond B cd))"
      by (simp add: st' heap_get_alloc_old)
  qed
  show "\<exists>out. v_normalized st' = v_normalized st @ [out] \<and>
           confidence_validated B (v_heap st) (v_heap st') (v_issues st') r out \<and>
           conditions_shared B (v_heap st) (v_heap st') r out"
    using cv cs by (intro exI[of _ "Ref ?na"]) (simp add: st')
qed

lemma validated_mono:
  assumes "validated B h1 h2 iss r out" "evolves B h h1" "evolves B h2 h3"
    "set iss \<subseteq> set iss'" "\<forall>a. r = Ref a \<longrightarrow> a < length h"
  shows "validated B h h3 iss' r out"
  using assms confidence_validated_mono conditions_shared_mono
  unfolding validated_def by blast

lemma validate_loop_result:
  assumes "validate_loop B i rs st = Inr st'"
    and "\<forall>a. Ref a \<in> set rs \<longrightarrow> a < length (v_heap st)"
  shows "evolves B (v_heap st) (v_heap st') \<and>
         (\<exists>new. v_issues st' = v_issues st @ new \<and>
            (\<forall>i c. InvalidConfidence i c \<in> set new \<longrightarrow> normalize_confidence_raw B c = None)) \<and>
         (\<exists>outs. v_normalized st' = v_normalized st @ outs \<and>
            list_all2 (validated B (v_heap st) (v_heap st') (v_issues st'))
              (filter (kept_rule (v_heap st)) rs) outs)"
  using assms
proof (induction rs arbitrary: i st)
  case Nil
  then show ?case by (simp add: evolves_refl)
next
  case (Cons r rs)
  let ?h = "v_heap st"
  from Cons.prems(1) obtain st1 where step: "validate_rule B i r st = Inr st1"
    and loop: "validate_loop B (Suc i) rs st1 = Inr st'"
    by (auto split: sum.splits)
  let ?h1 = "v_heap st1"
  have e01: "evolves B ?h ?h1"
  proof (cases "kept_rule ?h r")
    case True
    from validate_rule_kept(2)[OF step True] show ?thesis .
  next
    case False
    from validate_rule_rejected[OF step False] show ?thesis by (simp add: evolves_refl)
  qed
  have i01: "\<exists>new. v_issues st1 = v_issues st @ new \<and>
            (\<forall>i c. InvalidConfidence i c \<in> set new \<longrightarrow> normalize_confidence_raw B c = None)"
  proof (cases "kept_rule ?h r")
    case True
    from validate_rule_kept(3)[OF step True] show ?thesis .
  next
    case False
    from validate_rule_rejected[OF step False] show ?thesis by blast
  qed
  have wf1: "\<forall>a. Ref a \<in> set rs \<longrightarrow> a < length ?h1"
    using Cons.prems(2) evolves_length[OF e01] by fastforce
  note ih = Cons.IH[OF loop wf1]
  from ih have e1: "evolves B ?h1 (v_heap st')" by simp
  have ev: "evolves B ?h (v_heap st')" by (rule evolves_trans[OF e01 e1])
  from ih obtain new1 where new1: "v_issues st' = v_issues st1 @ new1"
    "\<forall>i c. InvalidConfidence i c \<in> set new1 \<longrightarrow> normalize_confidence_raw B c = None"
    by blast
  from i01 obtain new0 where new0: "v_issues st1 = v_issues st @ new0"
    "\<forall>i c. InvalidConfidence i c \<in> set new0 \<longrightarrow> normalize_confidence_raw B c = None"
    by blast
  have iss: "\<exists>new. v_issues st' = v_issues st @ new \<and>
            (\<forall>i c. InvalidConfidence i c \<in> set new \<longrightarrow> normalize_confidence_raw B c = None)"
  proof (intro exI conjI)
    show "v_issues st' = v_issues st @ (new0 @ new1)" by (simp add: new0(1) new1(1))
    show "\<forall>i c. InvalidConfidence i c \<in> set (new0 @ new1) \<longrightarrow> normalize_confidence_raw B c = None"
      using new0(2) new1(2) by auto
  qed
  from ih obtain outs1 where outs1: "v_normalized st' = v_normalized st1 @ outs1"
    "list_all2 (validated B ?h1 (v_heap st') (v_issues st')) (filter (kept_rule ?h1) rs) outs1"
    by blast
  have same_filter: "filter (kept_rule ?h1) rs = filter (kept_rule ?h) rs"
  proof (rule filter_cong[OF refl])
    fix x assume "x \<in> set rs"
    with Cons.prems(2) have "\<forall>a. x = Ref a \<longrightarrow> a < length ?h" by auto
    from kept_rule_evolves[OF e01 this] show "kept_rule ?h1 x = kept_rule ?h x" .
  qed
  have tail: "list_all2 (validated B ?h (v_heap st') (v_issues st')) (filter (kept_rule ?h) rs) outs1"
  proof (rule list.rel_mono_strong[OF outs1(2)[unfolded same_filter]])
    fix x y assume x: "x \<in> set (filter (kept_rule ?h) rs)"
      and v: "validated B ?h1 (v_heap st') (v_issues st') x y"
    from x Cons.prems(2) have "\<forall>a. x = Ref a \<longrightarrow> a < length ?h" by auto
    from validated_mono[OF v e01 evolves_refl subset_refl this]
    show "validated B ?h (v_heap st') (v_issues st') x y" .
  qed
  have outs: "\<exists>outs. v_normalized st' = v_normalized st @ outs \<and>
            list_all2 (validated B ?h (v_heap st') (v_issues st'))
              (filter (kept_rule ?h) (r # rs)) outs"
  proof (cases "kept_rule ?h r")
    case True
    from validate_rule_kept(1)[OF step True]
    obtain out0 where out0: "v_normalized st1 = v_normalized st @ [out0]"
      "confidence_validated B ?h ?h1 (v_issues st1) r out0"
      "conditions_shared B ?h ?h1 r out0"
      by blast
    then have v0: "validated B ?h ?h1 (v_issues st1) r out0" by (simp add: validated_def)
    have sub: "set (v_issues st1) \<subseteq> set (v_issues st')" by (simp add: new1(1))
    from Cons.prems(2) have "\<forall>a. r = Ref a \<longrightarrow> a < length ?h" by auto
    from validated_mono[OF v0 evolves_refl e1 sub this]
    have head: "validated B ?h (v_heap st') (v_issues st') r out0" .
    show ?thesis
      by (rule exI[of _ "out0 # outs1"]) (simp add: True outs1(1) out0(1) head tail)
  next
    case False
    from validate_rule_rejected[OF step False] have "v_normalized st1 = v_normalized st" by simp
    then show ?thesis
      by (intro exI[of _ outs1]) (simp add: False outs1(1) tail)
  qed
  from ev iss outs show ?case by blast
qed

lemma normalize_confidence_raw_table:
  "normalize_confidence_raw B c =
     (case sval_float B c of
        Inl e \<Rightarrow> None
      | Inr cf \<Rightarrow>
          if cf < 0 then None
          else if cf \<le> 1 then Some cf
          else if cf \<le> 100 then Some (cf / 100)
          else Some 1)"
  by (auto simp: normalize_confidence_raw_def split: sum.splits)

lemma atom_eq_AInt_iff [simp]: "atom_eq (AInt j) (AInt i) = (j = i)"
  by (simp add: atom_eq_def)

lemma dict_put_keys:
  "map fst by_id = map AInt ks \<Longrightarrow>
     map fst (dict_put by_id (AInt i) r) = map AInt (if i \<in> set ks then ks else ks @ [i])"
proof (induction by_id arbitrary: ks)
  case Nil
  then show ?case by simp
next
  case (Cons e es)
  obtain k v where e: "e = (k, v)" by (cases e)
  from Cons.prems e obtain j js where ks: "ks = j # js" "k = AInt j" "map fst es = map AInt js"
    by (cases ks) auto
  from Cons.IH[OF ks(3)] show ?case by (auto simp: e ks)
qed

lemma dict_lookup_put:
  "map fst by_id = map AInt ks \<Longrightarrow>
     dict_lookup (dict_put by_id (AInt i) r) (AInt j) =
       (if j = i then Some r else dict_lookup by_id (AInt j))"
proof (induction by_id arbitrary: ks)
  case Nil
  then show ?case by simp
next
  case (Cons e es)
  obtain k v where e: "e = (k, v)" by (cases e)
  from Cons.prems e obtain j' js where ks: "ks = j' # js" "k = AInt j'" "map fst es = map AInt js"
    by (cases ks) auto
  from Cons.IH[OF ks(3)] show ?case by (auto simp: e ks)
qed

lemma holds_map_put:
  assumes "holds_map by_id m"
  shows "holds_map (dict_put by_id (AInt i) r) (m(i \<mapsto> r))"
proof -
  from assms obtain ks where ks: "map fst by_id = map AInt ks" "distinct ks" "set ks = dom m"
    and look: "\<forall>j. dict_lookup by_id (AInt j) = m j"
    by (auto simp: holds_map_def)
  let ?ks = "if i \<in> set ks then ks else ks @ [i]"
  have "map fst (dict_put by_id (AInt i) r) = map AInt ?ks" by (rule dict_put_keys[OF ks(1)])
  moreover have "distinct ?ks" using ks(2) by simp
  moreover have "set ?ks = dom (m(i \<mapsto> r))" using ks(3) by auto
  moreover have "\<forall>j. dict_lookup (dict_put by_id (AInt i) r) (AInt j) = (m(i \<mapsto> r)) j"
    using dict_lookup_put[OF ks(1)] look by simp
  ultimately show ?thesis unfolding holds_map_def by blast
qed

lemma key_existing_keyed:
  assumes "\<forall>r\<in>set rs. int_id h r \<noteq> None" "holds_map by_id m"
  shows "\<exists>by_id'. key_existing h rs by_id = Inr by_id' \<and> holds_map by_id' (keyed h rs m)"
  using assms
proof (induction rs arbitrary: by_id m)
  case Nil
  then show ?case by (simp add: keyed_def)
next
  case (Cons r rs)
  from Cons.prems(1) obtain i where i: "int_id h r = Some i" by auto
  then obtain a d where d: "dict_at h r = Some (a, d)" "map_of d ''id'' = Some (Imm (AInt i))"
    by (auto simp: int_id_def split: option.splits sval.splits atom.splits)
  have step: "key_existing h (r # rs) by_id = key_existing h rs (dict_put by_id (AInt i) r)"
    using d by (simp add: subscript_id_def put_by_id_def)
  have k: "keyed h (r # rs) m = keyed h rs (m(i \<mapsto> r))" by (simp add: keyed_def i)
  from Cons.prems(1) have rest: "\<forall>r\<in>set rs. int_id h r \<noteq> None" by simp
  from Cons.IH[OF rest holds_map_put[OF Cons.prems(2), of i r]] show ?case
    by (simp only: step k)
qed

lemma put_new_keyed:
  assumes "\<forall>r\<in>set rs. int_id_or_skipped h r" "holds_map by_id m"
  shows "\<exists>by_id'. put_new h rs by_id = Inr by_id' \<and> holds_map by_id' (keyed h rs m)"
  using assms
proof (induction rs arbitrary: by_id m)
  case Nil
  then show ?case by (simp add: keyed_def)
next
  case (Cons r rs)
  from Cons.prems(1) have rest: "\<forall>r\<in>set rs. int_id_or_skipped h r" by simp
  show ?case
  proof (cases "int_id h r")
    case None
    have step: "put_new h (r # rs) by_id = put_new h rs by_id"
    proof (cases "dict_at h r")
      case nd: None
      then show ?thesis by simp
    next
      case (Some p)
      obtain a d where p: "p = (a, d)" by (cases p)
      from Cons.prems(1) Some p None have "map_of d ''id'' = None"
        by (auto simp: int_id_or_skipped_def split: option.splits)
      with Some p show ?thesis by simp
    qed
    have k: "keyed h (r # rs) m = keyed h rs m" by (simp add: keyed_def None)
    from Cons.IH[OF rest Cons.prems(2)] show ?thesis by (simp only: step k)
  next
    case (Some i)
    then obtain a d where d: "dict_at h r = Some (a, d)" "map_of d ''id'' = Some (Imm (AInt i))"
      by (auto simp: int_id_def split: option.splits sval.splits atom.splits)
    have step: "put_new h (r # rs) by_id = put_new h rs (dict_put by_id (AInt i) r)"
      using d by (simp add: put_by_id_def)
    have k: "keyed h (r # rs) m = keyed h rs (m(i \<mapsto> r))" by (simp add: keyed_def Some)
    from Cons.IH[OF rest holds_map_put[OF Cons.prems(2), of i r]] show ?thesis
      by (simp only: step k)
  qed
qed

lemma insort_key_AInt:
  "insort_key num_key (AInt i) (map AInt ks) = map AInt (insort i ks)"
  by (induction ks) (auto simp: num_key_def)

lemma sort_key_AInt: "sort_key num_key (map AInt ks) = map AInt (sort ks)"
  by (induction ks) (simp_all add: insort_key_AInt)

lemma sorted_keys_AInt: "sorted_keys (map AInt ks) = Inr (map AInt (sort ks))"
proof (cases "length ks \<le> 1")
  case True
  then have "sort ks = ks" by (cases ks) (auto simp: Suc_le_eq)
  with True show ?thesis by (simp add: sorted_keys_def)
next
  case False
  have "list_all (\<lambda>a. num_of a \<noteq> None) (map AInt ks)" by (simp add: list_all_iff)
  with False show ?thesis by (simp add: sorted_keys_def sort_key_AInt)
qed

lemma holds_map_empty: "holds_map [] Map.empty"
  by (simp add: holds_map_def)

lemma merge_rules_merged_catalog:
  assumes "\<forall>r\<in>set existing. int_id h r \<noteq> None" "\<forall>r\<in>set incoming. int_id_or_skipped h r"
  shows "merge_rules h existing incoming = Inr (merged_catalog h existing incoming)"
proof -
  let ?me = "keyed h existing Map.empty"
  let ?m = "keyed h incoming ?me"
  from key_existing_keyed[OF assms(1) holds_map_empty]
  obtain by0 where by0: "key_existing h existing [] = Inr by0" "holds_map by0 ?me" by blast
  from put_new_keyed[OF assms(2) by0(2)]
  obtain by1 where by1: "put_new h incoming by0 = Inr by1" "holds_map by1 ?m" by blast
  from by1(2) obtain ks where ks: "map fst by1 = map AInt ks" "distinct ks" "set ks = dom ?m"
    and look: "\<forall>i. dict_lookup by1 (AInt i) = ?m i"
    by (auto simp: holds_map_def)
  have sk: "sorted_keys (map fst by1) = Inr (map AInt (sort ks))"
    by (simp add: ks(1) sorted_keys_AInt)
  have srt: "sort ks = sorted_list_of_set (dom ?m)"
    using sorted_list_of_set_sort_remdups[of ks] ks(2) ks(3) by (simp add: distinct_remdups_id)
  have vals: "map (\<lambda>k. get_or (dict_lookup by1 k) (Imm ANone)) (map AInt (sort ks)) =
              map (\<lambda>i. the (?m i)) (sort ks)"
  proof -
    have "get_or (dict_lookup by1 (AInt i)) (Imm ANone) = the (?m i)" if "i \<in> set ks" for i
    proof -
      from that ks(3) obtain v where "?m i = Some v" by auto
      with look show ?thesis by (simp add: get_or_def)
    qed
    then have "map ((\<lambda>k. get_or (dict_lookup by1 k) (Imm ANone)) \<circ> AInt) (sort ks) =
               map (\<lambda>i. the (?m i)) (sort ks)"
      by (intro map_cong[OF refl]) simp
    then show ?thesis by (simp only: map_map)
  qed
  have "merge_rules h existing incoming =
          Inr (map (\<lambda>k. get_or (dict_lookup by1 k) (Imm ANone)) (map AInt (sort ks)))"
    by (simp only: merge_rules_def by0(1) by1(1) sk sum.case)
  also have "\<dots> = Inr (map (\<lambda>i. the (?m i)) (sort ks))"
    by (simp only: vals)
  also have "map (\<lambda>i. the (?m i)) (sort ks) = merged_catalog h existing incoming"
    by (simp only: merged_catalog_def Let_def srt)
  finally show ?thesis .
qed


lemma keyed_dom_ids:
  "keyed h rs m i = Some r \<Longrightarrow> m i = Some r \<or> (r \<in> set rs \<and> int_id h r = Some i)"
proof (induction rs arbitrary: m)
  case Nil
  then show ?case by (simp add: keyed_def)
next
  case (Cons x xs)
  have k: "keyed h (x # xs) m = keyed h xs (case int_id h x of None \<Rightarrow> m | Some j \<Rightarrow> m(j \<mapsto> x))"
    by (simp add: keyed_def)
  from Cons.prems[unfolded k] Cons.IH show ?case
    by (fastforce split: option.splits if_splits)
qed

lemma keyed_other:
  "\<forall>r\<in>set rs. int_id h r \<noteq> Some i \<Longrightarrow> keyed h rs m i = m i"
proof (induction rs arbitrary: m)
  case Nil
  then show ?case by (simp add: keyed_def)
next
  case (Cons x xs)
  have k: "keyed h (x # xs) m = keyed h xs (case int_id h x of None \<Rightarrow> m | Some j \<Rightarrow> m(j \<mapsto> x))"
    by (simp add: keyed_def)
  from Cons.prems have "\<forall>r\<in>set xs. int_id h r \<noteq> Some i" by simp
  from Cons.IH[OF this] Cons.prems show ?case
    by (auto simp: k split: option.splits)
qed

lemma keyed_last_wins:
  "\<exists>r\<in>set rs. int_id h r = Some i \<Longrightarrow>
     \<exists>r\<in>set rs. int_id h r = Some i \<and> keyed h rs m i = Some r"
proof (induction rs arbitrary: m)
  case Nil
  then show ?case by simp
next
  case (Cons x xs)
  let ?m' = "case int_id h x of None \<Rightarrow> m | Some j \<Rightarrow> m(j \<mapsto> x)"
  have k: "keyed h (x # xs) m = keyed h xs ?m'"
    by (simp add: keyed_def)
  show ?case
  proof (cases "\<exists>r\<in>set xs. int_id h r = Some i")
    case True
    from Cons.IH[OF True, of ?m'] show ?thesis by (auto simp: k)
  next
    case False
    with Cons.prems have x: "int_id h x = Some i" by auto
    from False have "keyed h xs ?m' i = ?m' i" by (intro keyed_other) simp
    with x show ?thesis by (auto simp: k)
  qed
qed

text \<open>When \<^verbatim>\<open>validate_rules\<close> raises, and what it returns otherwise.\<close>

lemma validate_rule_raises:
  "validate_rule B i r st = Inl e \<Longrightarrow> unhashable_id (v_heap st) r"
  by (auto simp: validate_rule_def unhashable_id_def rule_id_def Let_def
           split: option.splits sval.splits if_splits prod.splits)

lemma unhashable_id_evolves:
  assumes "evolves B h h1" "\<forall>a. r = Ref a \<longrightarrow> a < length h" "unhashable_id h1 r"
  shows "unhashable_id h r"
proof -
  from assms(3) obtain a d1 where d1: "dict_at h1 r = Some (a, d1)"
    and rid: "case rule_id d1 of Ref x \<Rightarrow> True | Imm x \<Rightarrow> False"
    by (auto simp: unhashable_id_def split: option.splits)
  from dict_at_SomeD[OF d1] have r: "r = Ref a" and h1a: "heap_get h1 a = Some (ODict d1)"
    by simp_all
  from assms(2) r have "a < length h" by simp
  from evolves_dict_back[OF assms(1) this h1a]
  obtain d where d: "heap_get h a = Some (ODict d)" "d1 = d \<or> d1 = normalized_cond B d"
    by blast
  from rule_id_same[OF d(2)] rid d(1) r show ?thesis
    by (simp add: unhashable_id_def dict_at_Ref)
qed

lemma validate_loop_raises:
  assumes "validate_loop B i rs st = Inl e"
    and "\<forall>a. Ref a \<in> set rs \<longrightarrow> a < length (v_heap st)"
  shows "list_ex (unhashable_id (v_heap st)) rs"
  using assms
proof (induction rs arbitrary: i st)
  case Nil
  then show ?case by simp
next
  case (Cons r rs)
  show ?case
  proof (cases "validate_rule B i r st")
    case (Inl e')
    from validate_rule_raises[OF Inl] show ?thesis by simp
  next
    case (Inr st1)
    with Cons.prems(1) have loop: "validate_loop B (Suc i) rs st1 = Inl e" by simp
    have e01: "evolves B (v_heap st) (v_heap st1)"
    proof (cases "kept_rule (v_heap st) r")
      case True
      from validate_rule_kept(2)[OF Inr True] show ?thesis .
    next
      case False
      from validate_rule_rejected[OF Inr False] show ?thesis by (simp add: evolves_refl)
    qed
    have wf1: "\<forall>a. Ref a \<in> set rs \<longrightarrow> a < length (v_heap st1)"
      using Cons.prems(2) evolves_length[OF e01] by fastforce
    from Cons.IH[OF loop wf1] obtain r' where r': "r' \<in> set rs" "unhashable_id (v_heap st1) r'"
      by (auto simp: list_ex_iff)
    from r'(1) Cons.prems(2) have "\<forall>a. r' = Ref a \<longrightarrow> a < length (v_heap st)" by auto
    from unhashable_id_evolves[OF e01 this r'(2)] r'(1) show ?thesis
      by (auto simp: list_ex_iff)
  qed
qed

lemma validate_rules_raises:
  assumes "validate_rules B h rules = Inl e" "\<forall>a. Ref a \<in> set rules \<longrightarrow> a < length h"
  shows "list_ex (unhashable_id h) rules"
proof -
  let ?st = "\<lparr>v_heap = h, v_seen = [], v_normalized = [], v_issues = []\<rparr>"
  from assms(1) have "validate_loop B 0 rules ?st = Inl e"
    by (auto simp: validate_rules_def split: sum.splits)
  from validate_loop_raises[OF this] assms(2) show ?thesis by simp
qed

lemma validate_rules_returns:
  assumes "validate_rules B h rules = Inr (h', out, iss)"
    and "\<forall>a. Ref a \<in> set rules \<longrightarrow> a < length h"
  shows "list_all2 (validated B h h' iss) (filter (kept_rule h) rules) out"
    and "evolves B h h'"
    and "\<forall>i c. InvalidConfidence i c \<in> set iss \<longrightarrow> normalize_confidence_raw B c = None"
proof -
  let ?st = "\<lparr>v_heap = h, v_seen = [], v_normalized = [], v_issues = []\<rparr>"
  from assms(1) obtain st' where loop: "validate_loop B 0 rules ?st = Inr st'"
    and st': "v_heap st' = h'" "v_normalized st' = out" "v_issues st' = iss"
    by (auto simp: validate_rules_def split: sum.splits)
  from assms(2) have wf: "\<forall>a. Ref a \<in> set rules \<longrightarrow> a < length (v_heap ?st)" by simp
  from validate_loop_result[OF loop wf] st'
  show "list_all2 (validated B h h' iss) (filter (kept_rule h) rules) out"
    and "evolves B h h'"
    and "\<forall>i c. InvalidConfidence i c \<in> set iss \<longrightarrow> normalize_confidence_raw B c = None"
    by auto
qed

lemma keyed_own_id:
  assumes "keyed h incoming (keyed h existing Map.empty) i = Some r"
  shows "int_id h r = Some i"
  using keyed_dom_ids[OF assms] keyed_dom_ids[of h existing Map.empty i r] by auto
section \<open>The claims about the importer\<close>

lemmas import_simps = validate_rules_def validate_rule_def conditions_list_def validate_cond_def
  dict_at_def list_at_def heap_get_def alloc_def get_or_def sval_truthy_def
  normalize_confidence_raw_def default_confidence_def Let_def

text \<open>The three example runs, evaluated.\<close>

lemma conf_run:
  "validate_rules decimal_builtins conf_heap [Ref 0, Ref 1, Ref 2, Ref 3, Ref 4] =
     Inr (conf_heap_after, [Ref 6, Ref 8, Ref 10, Ref 12], conf_issues)"
  by (simp add: import_simps conf_heap_def conf_heap_after_def conf_issues_def
        decimal_builtins_def signed_def unsigned_float_def digit_of_def)

lemma shared_run:
  "validate_rules decimal_builtins shared_heap [Ref 0] =
     Inr (shared_heap_after, [Ref 4], [ConditionMissingOp (Imm (AInt 7)) 0])"
  by (simp add: import_simps shared_heap_def shared_heap_after_def
        decimal_builtins_def signed_def unsigned_float_def digit_of_def unsigned_int_def)

lemma merge_run:
  "merge_rules merge_heap [Ref 0, Ref 1] [Ref 2, Ref 3, Imm (AInt 5)] = Inr [Ref 1, Ref 2]"
  by (simp add: merge_rules_def subscript_id_def put_by_id_def sorted_keys_def num_key_def
        merge_heap_def dict_at_def heap_get_def get_or_def)

text \<open>
  C5. \<^verbatim>\<open>merge_rules\<close> returns the catalog of the spec's words (\<^const>\<open>merged_catalog\<close>:
  the existing rules keyed by \<^verbatim>\<open>id\<close>, every incoming rule written over them under
  its \<^verbatim>\<open>id\<close>, an incoming entry that is no dictionary or has no \<^verbatim>\<open>id\<close> skipped),
  for existing rules that are dictionaries with an integer \<^verbatim>\<open>id\<close> and incoming
  rules whose \<^verbatim>\<open>id\<close>, if they have one, is an integer. The ids of the result are
  strictly ascending, whatever the order of the input, and a rule of the result whose
  \<^verbatim>\<open>id\<close> is that of an incoming rule is an incoming rule object itself: the existing
  rule is replaced as a whole.
\<close>

theorem merge_rules_by_id:
  assumes "\<forall>r\<in>set existing. int_id h r \<noteq> None"
    and "\<forall>r\<in>set incoming. int_id_or_skipped h r"
  shows "merge_rules h existing incoming = Inr (merged_catalog h existing incoming) \<and>
         sorted_wrt (<) (map (\<lambda>r. the (int_id h r)) (merged_catalog h existing incoming)) \<and>
         (\<forall>r\<in>set (merged_catalog h existing incoming).
            (\<exists>r'\<in>set incoming. int_id h r' = int_id h r) \<longrightarrow> r \<in> set incoming)"
proof -
  let ?m = "keyed h incoming (keyed h existing Map.empty)"
  have own: "int_id h (the (?m i)) = Some i" if "i \<in> dom ?m" for i
    using that keyed_own_id[of h incoming existing i] by auto
  have fin: "finite (dom ?m)"
  proof -
    have "dom ?m \<subseteq> (\<lambda>r. the (int_id h r)) ` (set existing \<union> set incoming)"
    proof
      fix i assume "i \<in> dom ?m"
      then obtain r where r: "?m i = Some r" by auto
      from keyed_dom_ids[OF r] keyed_dom_ids[of h existing Map.empty i r]
      have "r \<in> set existing \<union> set incoming" "int_id h r = Some i" by auto
      then show "i \<in> (\<lambda>r. the (int_id h r)) ` (set existing \<union> set incoming)" by force
    qed
    then show ?thesis by (rule finite_subset) simp
  qed
  have ids: "map (\<lambda>r. the (int_id h r)) (merged_catalog h existing incoming) =
             sorted_list_of_set (dom ?m)"
  proof -
    have "map (\<lambda>r. the (int_id h r)) (merged_catalog h existing incoming) =
          map (\<lambda>i. the (int_id h (the (?m i)))) (sorted_list_of_set (dom ?m))"
      by (simp add: merged_catalog_def Let_def comp_def)
    also have "\<dots> = map (\<lambda>i. i) (sorted_list_of_set (dom ?m))"
      by (intro map_cong[OF refl]) (simp add: own fin)
    finally show ?thesis by simp
  qed
  have srt: "sorted_wrt (<) (map (\<lambda>r. the (int_id h r)) (merged_catalog h existing incoming))"
    unfolding ids by (rule strict_sorted_list_of_set)
  have wins: "r \<in> set incoming"
    if r: "r \<in> set (merged_catalog h existing incoming)"
      and ex: "\<exists>r'\<in>set incoming. int_id h r' = int_id h r" for r
  proof -
    from r fin obtain i where i: "i \<in> dom ?m" "r = the (?m i)"
      by (auto simp: merged_catalog_def Let_def)
    from own[OF i(1)] i(2) have rid: "int_id h r = Some i" by simp
    with ex have "\<exists>r'\<in>set incoming. int_id h r' = Some i" by simp
    from keyed_last_wins[OF this, of "keyed h existing Map.empty"]
    obtain r' where "r' \<in> set incoming" "?m i = Some r'" by blast
    with i(2) show ?thesis by simp
  qed
  from merge_rules_merged_catalog[OF assms] srt wins show ?thesis by blast
qed

text \<open>
  The instance of C5: existing rules with the ids 2 and 1, incoming a rule with the
  id 2, a dictionary without \<^verbatim>\<open>id\<close> and the number 5. The result is the existing
  rule 1 followed by the incoming rule 2; the existing rule 2 (address 0) is gone.
\<close>

theorem merge_rules_by_id_witness:
  "merge_rules merge_heap [Ref 0, Ref 1] [Ref 2, Ref 3, Imm (AInt 5)] = Inr [Ref 1, Ref 2] \<and>
   merged_catalog merge_heap [Ref 0, Ref 1] [Ref 2, Ref 3, Imm (AInt 5)] = [Ref 1, Ref 2] \<and>
   map (\<lambda>r. the (int_id merge_heap r)) [Ref 1, Ref 2] = [1, 2]"
proof -
  have ex: "\<forall>r\<in>set [Ref 0, Ref 1]. int_id merge_heap r \<noteq> None"
    by (simp add: int_id_def dict_at_def heap_get_def merge_heap_def)
  have inc: "\<forall>r\<in>set [Ref 2, Ref 3, Imm (AInt 5)]. int_id_or_skipped merge_heap r"
    by (simp add: int_id_or_skipped_def int_id_def dict_at_def heap_get_def merge_heap_def)
  have ids: "map (\<lambda>r. the (int_id merge_heap r)) [Ref 1, Ref 2] = [1, 2]"
    by (simp add: int_id_def dict_at_def heap_get_def merge_heap_def)
  from merge_rules_by_id[OF ex inc] merge_run ids show ?thesis by simp
qed

text \<open>
  C7. For every list of rules whose references point into the store,
  \<^verbatim>\<open>validate_rules\<close> raises only at a rule whose \<^verbatim>\<open>id\<close> is unhashable, and
  otherwise every kept rule has one output rule, in order, whose \<^verbatim>\<open>confidence\<close> is
  the normalized one: with \<open>cf\<close> the \<^verbatim>\<open>float\<close> of the confidence, \<open>cf\<close> itself for
  \<open>0 \<le> cf \<le> 1\<close>, \<open>cf / 100\<close> for \<open>1 < cf \<le> 100\<close>, 1.0 above 100, and 0.5 together
  with an invalid-confidence issue when the confidence has no \<^verbatim>\<open>float\<close> or when
  \<open>cf < 0\<close>. An invalid-confidence issue is recorded for such confidences only. So a
  negative confidence is not normalized to 0.0: it is reported and replaced by 0.5.
\<close>

theorem validate_rules_confidence:
  assumes "\<forall>a. Ref a \<in> set rules \<longrightarrow> a < length h"
  shows "(case validate_rules B h rules of
            Inl e \<Rightarrow> list_ex (unhashable_id h) rules
          | Inr (h', out, iss) \<Rightarrow>
              list_all2 (confidence_validated B h h' iss) (filter (kept_rule h) rules) out \<and>
              (\<forall>i c. InvalidConfidence i c \<in> set iss \<longrightarrow> normalize_confidence_raw B c = None)) \<and>
         (\<forall>c. normalize_confidence_raw B c =
                (case sval_float B c of
                   Inl e \<Rightarrow> None
                 | Inr cf \<Rightarrow>
                     if cf < 0 then None
                     else if cf \<le> 1 then Some cf
                     else if cf \<le> 100 then Some (cf / 100)
                     else Some 1))"
proof (cases "validate_rules B h rules")
  case (Inl e)
  from validate_rules_raises[OF Inl assms] Inl normalize_confidence_raw_table
  show ?thesis by simp
next
  case (Inr res)
  obtain h' out iss where res: "res = (h', out, iss)" by (cases res)
  note r = validate_rules_returns[OF Inr[unfolded res] assms]
  from r(1) have "list_all2 (confidence_validated B h h' iss) (filter (kept_rule h) rules) out"
    by (rule list_all2_mono) (simp add: validated_def)
  with r(3) Inr res normalize_confidence_raw_table show ?thesis by simp
qed

text \<open>
  The instance of C7: 85 becomes 0.85, \<open>- 1\<close> and \<^verbatim>\<open>'high'\<close> are reported and become
  0.5, 0 stays 0.0, and the dictionary without \<^verbatim>\<open>id\<close> is dropped.
\<close>

theorem validate_rules_confidence_witness:
  "validate_rules decimal_builtins conf_heap [Ref 0, Ref 1, Ref 2, Ref 3, Ref 4] =
     Inr (conf_heap_after, [Ref 6, Ref 8, Ref 10, Ref 12], conf_issues) \<and>
   list_all2 (confidence_validated decimal_builtins conf_heap conf_heap_after conf_issues)
     (filter (kept_rule conf_heap) [Ref 0, Ref 1, Ref 2, Ref 3, Ref 4])
     [Ref 6, Ref 8, Ref 10, Ref 12]"
proof -
  have wf: "\<forall>a. Ref a \<in> set [Ref 0, Ref 1, Ref 2, Ref 3, Ref 4] \<longrightarrow> a < length conf_heap"
    by (auto simp: conf_heap_def)
  from validate_rules_confidence[OF wf, of decimal_builtins] conf_run show ?thesis by simp
qed

text \<open>
  Against C7 as the spec words it (a confidence \<open>c \<le> 0\<close> becomes 0.0 without an
  issue): the rule with the confidence \<open>- 1\<close> comes out with the confidence 0.5 and
  an invalid-confidence issue.
\<close>

theorem validate_rules_negative_confidence_counterexample:
  "validate_rules decimal_builtins
     [ODict [(''id'', Imm (AInt 2)), (''name'', Imm (AStr ''B'')),
             (''confidence'', Imm (AInt (- 1)))]]
     [Ref 0] =
   Inr ([ODict [(''id'', Imm (AInt 2)), (''name'', Imm (AStr ''B'')),
                (''confidence'', Imm (AInt (- 1)))],
         OList [],
         ODict [(''id'', Imm (AInt 2)), (''name'', Imm (AStr ''B'')),
                (''confidence'', Imm (AFloat 0.5)), (''conditions'', Ref 1)]],
        [Ref 2],
        [InvalidConfidence (Imm (AInt 2)) (Imm (AInt (- 1)))])"
  by (simp add: import_simps)

text \<open>
  C10. For every list of rules whose references point into the store,
  \<^verbatim>\<open>validate_rules\<close> raises only at a rule whose \<^verbatim>\<open>id\<close> is unhashable, and
  otherwise every kept rule has one output rule, in order, that is a new dictionary
  (the copy is shallow) referring to the very list of conditions of the input rule;
  that list holds the same condition objects, and each condition dictionary of the
  input has been changed in place: \<^verbatim>\<open>op\<close> is \<^verbatim>\<open>'=='\<close> where it was missing and is
  left alone otherwise, and \<^verbatim>\<open>weight\<close> is its \<^verbatim>\<open>float\<close>, or 1.0 when it was missing
  or has no \<^verbatim>\<open>float\<close>. Nothing else in the store that was passed in changes.
\<close>

theorem validate_rules_shares_conditions:
  assumes "\<forall>a. Ref a \<in> set rules \<longrightarrow> a < length h"
  shows "(case validate_rules B h rules of
            Inl e \<Rightarrow> list_ex (unhashable_id h) rules
          | Inr (h', out, iss) \<Rightarrow>
              list_all2 (conditions_shared B h h') (filter (kept_rule h) rules) out \<and>
              evolves B h h') \<and>
         (\<forall>cd. map_of (normalized_cond B cd) ''op'' =
                  (if map_of cd ''op'' = None then Some (Imm (AStr ''=='')) else map_of cd ''op'') \<and>
               map_of (normalized_cond B cd) ''weight'' =
                  Some (Imm (AFloat (weight_or_default B cd))))"
proof (cases "validate_rules B h rules")
  case (Inl e)
  from validate_rules_raises[OF Inl assms] Inl
  show ?thesis by (simp add: map_of_normalized_cond_op map_of_normalized_cond_weight)
next
  case (Inr res)
  obtain h' out iss where res: "res = (h', out, iss)" by (cases res)
  note r = validate_rules_returns[OF Inr[unfolded res] assms]
  from r(1) have "list_all2 (conditions_shared B h h') (filter (kept_rule h) rules) out"
    by (rule list_all2_mono) (simp add: validated_def)
  with r(2) Inr res show ?thesis
    by (simp add: map_of_normalized_cond_op map_of_normalized_cond_weight)
qed

text \<open>
  The instance of C10: the output rule (address 4) refers to the input's list of
  conditions (address 1), and the input's condition dictionaries at the addresses 2
  and 3 are no longer what they were.
\<close>

theorem validate_rules_shares_conditions_witness:
  "validate_rules decimal_builtins shared_heap [Ref 0] =
     Inr (shared_heap_after, [Ref 4], [ConditionMissingOp (Imm (AInt 7)) 0]) \<and>
   list_all2 (conditions_shared decimal_builtins shared_heap shared_heap_after)
     (filter (kept_rule shared_heap) [Ref 0]) [Ref 4] \<and>
   evolves decimal_builtins shared_heap shared_heap_after \<and>
   heap_get shared_heap_after 2 \<noteq> heap_get shared_heap 2 \<and>
   heap_get shared_heap_after 3 \<noteq> heap_get shared_heap 3"
proof -
  have wf: "\<forall>a. Ref a \<in> set [Ref 0] \<longrightarrow> a < length shared_heap"
    by (simp add: shared_heap_def)
  have changed: "heap_get shared_heap_after 2 \<noteq> heap_get shared_heap 2 \<and>
                 heap_get shared_heap_after 3 \<noteq> heap_get shared_heap 3"
    by (simp add: heap_get_def shared_heap_def shared_heap_after_def)
  from validate_rules_shares_conditions[OF wf, of decimal_builtins] shared_run changed
  show ?thesis by simp
qed

end
